theory Spec2Isabelle
  imports Main "HOL-Library.Word" "HOL-Library.Signed_Division"
begin

unbundle bit_operations_syntax

section \<open>Data model of \<open>dram_system.cc\<close>\<close>

text \<open>
  The PIM part of \<open>JedecDRAMSystem\<close>: the bounded queue of PIM control words, the decoder
  at the head of \<open>ClockTick\<close> and the per-cut engine that follows it.

  Conventions of the embedding.
  \<^item> \<open>uint64_t\<close> values (control words, the clock) are \<open>64 word\<close>; C++ \<open>int\<close> values are
    \<open>int\<close>. The only place where a value is narrowed to \<open>int\<close> from more bits than it has
    is \<open>dim_value\<close> of a Load, and the narrowing is written out there.
  \<^item> \<open>std::vector::operator[]\<close> is unchecked: an index outside the vector is undefined
    behaviour. The model returns \<open>Inl OutOfBounds\<close> there, so that every such access is a
    branch of the model. Likewise a division by zero is \<open>Inl DivByZero\<close> and a shift of an
    \<open>int\<close> by 32 or more is \<open>Inl ShiftOutOfRange\<close>.
  \<^item> \<open>assert\<close> (compiled in) and \<open>AbruptExit(__FILE__, __LINE__)\<close> abort the process and
    report the source line; the model returns \<open>Inl (AssertFail line)\<close> and
    \<open>Inl (AbruptExit line)\<close>.
  \<^item> Output on \<open>std::cout\<close> and \<open>std::cerr\<close> is not part of the state.
  \<^item> A member name that ends in an underscore (\<open>clk_\<close>, \<open>ctrls_\<close>, \<open>rd_w_cmds_\<close>) is
    written without it, since an Isabelle name cannot end in one.
\<close>

datatype error =
    AssertFail nat
  | AbruptExit nat
  | OutOfBounds
  | ShiftOutOfRange
  | DivByZero

text \<open>
  Modelled from the spec: the enumeration \<open>CommandType\<close> is declared in a header that is
  not part of the sources at hand. The kinds are those of the data model of the
  specification; \<open>SIZE\<close> is the invalid sentinel (\<open>Command::IsValid\<close> is false for it).
\<close>

datatype CommandType =
    READ | WRITE | ACTIVATE | PRECHARGE
  | PIM_ACTIVATE | PIM_READ | PIM_READ_PRECHARGE | PIM_WRITE | PIM_WRITE_PRECHARGE
  | SIZE

record Address =
  channel :: int
  rank :: int
  bankgroup :: int
  bank :: int
  row :: int
  column :: int

text \<open>\<open>Command(cmd_type, addr, hex_addr)\<close>; the address field is named \<open>cmd_addr\<close> here.\<close>

record Command =
  cmd_type :: CommandType
  cmd_addr :: Address
  hex_addr :: "64 word"

definition IsValid :: "Command \<Rightarrow> bool" where
  "IsValid c = (cmd_type c \<noteq> SIZE)"

definition Channel :: "Command \<Rightarrow> int" where
  "Channel c = channel (cmd_addr c)"

text \<open>A PIM transaction carries only its control word, \<open>Transaction(hex_addr)\<close>.\<close>

record Transaction =
  addr :: "64 word"

text \<open>
  What \<open>ClockTick\<close> reads and writes of a \<open>Controller\<close>: the three refresh queries (their
  answers during this tick), the multi-tenant flag and the command lanes.
\<close>

record Controller =
  pim_refresh_coming :: bool
  IsInRef :: bool
  pim_refresh_coming2 :: bool
  wr_multitenant :: bool
  rd_w_cmds :: "Command list"
  rd_in_cmds :: "Command list"
  release_time :: "int list"
  wr_cmds :: "Command list"

text \<open>
  The members of \<open>JedecDRAMSystem\<close> used by the PIM path. The per-cut vectors are kept as
  the parallel vectors that the source has.
\<close>

record sys =
  vcuts :: int
  hcuts :: int
  mcf :: int
  ucf :: int
  df :: int
  mc :: int
  M_tile_size :: int
  vcuts_next :: int
  hcuts_next :: int
  kernel_size :: int
  stride :: int
  base_rows_w :: "int list"
  base_rows_in :: "int list"
  base_rows_out :: "int list"
  M :: "int list"
  N :: "int list"
  K :: "int list"
  M_it :: "int list"
  K_tile_it :: "int list"
  N_it :: "int list"
  M_out_it :: "int list"
  N_out_tile_it :: "int list"
  in_pim :: "bool list"
  iw_status :: "int list"
  in_cnt :: "int list"
  out_cnt :: "int list"
  vpu_cnt :: "int list"
  in_act_placed :: "bool list"
  w_act_placed :: "bool list"
  out_act_placed :: "bool list"
  output_valid :: "int list"
  turn_off :: bool
  pim_trans_queue :: "Transaction list"
  pim_trans_queue_depth :: nat
  ctrls :: "Controller list"
  clk :: "64 word"
  last_req_clk :: "64 word"

subsection \<open>Errors as values\<close>

definition ebind :: "error + 'a \<Rightarrow> ('a \<Rightarrow> error + 'b) \<Rightarrow> error + 'b" where
  "ebind m f = (case m of Inl e \<Rightarrow> Inl e | Inr x \<Rightarrow> f x)"

text \<open>\<open>v[i]\<close> read and \<open>v[i] = x\<close> on a \<open>std::vector\<close>.\<close>

definition rd :: "'a list \<Rightarrow> nat \<Rightarrow> error + 'a" where
  "rd v i = (if i < length v then Inr (v ! i) else Inl OutOfBounds)"

definition wr :: "'a list \<Rightarrow> nat \<Rightarrow> 'a \<Rightarrow> error + 'a list" where
  "wr v i x = (if i < length v then Inr (v[i := x]) else Inl OutOfBounds)"

section \<open>The host interface\<close>

definition WillAcceptTransaction :: "sys \<Rightarrow> bool" where
  "WillAcceptTransaction s = (length (pim_trans_queue s) < pim_trans_queue_depth s)"

text \<open>\<open>AddTransaction(hex_addr)\<close>: the assertion is at line 144.\<close>

definition AddTransaction :: "sys \<Rightarrow> 64 word \<Rightarrow> error + (bool \<times> sys)" where
  "AddTransaction s hex =
     (let ok = WillAcceptTransaction s in
      if \<not> ok then Inl (AssertFail 144)
      else Inr (ok, s\<lparr>pim_trans_queue := pim_trans_queue s @ [\<lparr>addr = hex\<rparr>],
                      last_req_clk := clk s\<rparr>))"

section \<open>The decoder of PIM control words\<close>

definition bw_cutNo :: nat where "bw_cutNo = 4"
definition bw_vcuts :: nat where "bw_vcuts = 3"
definition bw_hcuts :: nat where "bw_hcuts = 1"
definition bw_mcf :: nat where "bw_mcf = 3"
definition bw_ucf :: nat where "bw_ucf = 3"
definition bw_df :: nat where "bw_df = 1"
definition bw_Mtile :: nat where "bw_Mtile = 4"
definition bw_kernelSize :: nat where "bw_kernelSize = 5"
definition bw_stride :: nat where "bw_stride = 5"
definition bw_dimValue :: nat where "bw_dimValue = 32"
definition bw_baseRow :: nat where "bw_baseRow = 22"
definition bw_loadType :: nat where "bw_loadType = 2"

text \<open>
  \<open>address & (1 << i)\<close> as a condition. The literal \<open>1\<close> is an \<open>int\<close>: the shift is done on
  32 bits and the result is sign-extended to the 64 bits of \<open>address\<close>, so that \<open>i = 31\<close>
  tests all of the bits 31 to 63; a shift by 32 or more is undefined.
\<close>

definition mask_test :: "64 word \<Rightarrow> nat \<Rightarrow> error + bool" where
  "mask_test address i =
     (if 32 \<le> i then Inl ShiftOutOfRange
      else Inr (address AND scast (push_bit i (1 :: 32 word)) \<noteq> 0))"

text \<open>
  The condition of line 244,
  \<open>(address & (1 << i)) && (M[i] != 0 && N[i] != 0 && K[i] != 0)\<close>,
  with the short-circuit evaluation of \<open>&&\<close>: a vector is read only when everything to
  its left is true.
\<close>

definition cut_selected_configured :: "sys \<Rightarrow> 64 word \<Rightarrow> nat \<Rightarrow> error + bool" where
  "cut_selected_configured s address i =
     ebind (mask_test address i) (\<lambda>sel.
       if \<not> sel then Inr False
       else ebind (rd (M s) i) (\<lambda>m.
         if m = 0 then Inr False
         else ebind (rd (N s) i) (\<lambda>n.
           if n = 0 then Inr False
           else ebind (rd (K s) i) (\<lambda>k. Inr (k \<noteq> 0)))))"

text \<open>Lines 243 to 247: the empty statement is the then-branch, the else-branch clears
  \<open>configured\<close>.\<close>

fun configured_loop :: "sys \<Rightarrow> 64 word \<Rightarrow> nat list \<Rightarrow> bool \<Rightarrow> error + bool" where
  "configured_loop s address [] configured = Inr configured"
| "configured_loop s address (i # is) configured =
     (case cut_selected_configured s address i of
        Inl e \<Rightarrow> Inl e
      | Inr c \<Rightarrow> configured_loop s address is (if c then configured else False))"

text \<open>Lines 249 to 251.\<close>

fun enable_loop :: "64 word \<Rightarrow> nat list \<Rightarrow> bool list \<Rightarrow> error + bool list" where
  "enable_loop address [] ip = Inr ip"
| "enable_loop address (i # is) ip =
     (case mask_test address i of
        Inl e \<Rightarrow> Inl e
      | Inr sel \<Rightarrow>
          if sel then (case wr ip i True of Inl e \<Rightarrow> Inl e | Inr ip' \<Rightarrow> enable_loop address is ip')
          else enable_loop address is ip)"

definition compute_enable :: "sys \<Rightarrow> 64 word \<Rightarrow> error + sys" where
  "compute_enable s a =
     (let address = drop_bit 1 a;
          cuts = vcuts s * hcuts s;
          idx = [0..<nat cuts]
      in ebind (configured_loop s address idx True) (\<lambda>configured.
           if configured
           then ebind (enable_loop address idx (in_pim s)) (\<lambda>ip.
                  Inr (s\<lparr>in_pim := ip, pim_trans_queue := tl (pim_trans_queue s)\<rparr>))
           else Inr s))"

text \<open>The fields of a Configure word, in the order in which lines 279 to 306 shift them
  out. \<open>1 << field\<close> is \<open>2 ^ field\<close>; no field exceeds 15.\<close>

definition cfg_field :: "64 word \<Rightarrow> nat \<Rightarrow> nat \<Rightarrow> nat" where
  "cfg_field a pos bw = unat (drop_bit pos a AND mask bw)"

definition pos_vcuts :: nat where "pos_vcuts = 1 + 4 + 2"
definition pos_hcuts :: nat where "pos_hcuts = pos_vcuts + bw_vcuts"
definition pos_mcf :: nat where "pos_mcf = pos_hcuts + bw_hcuts"
definition pos_ucf :: nat where "pos_ucf = pos_mcf + bw_mcf"
definition pos_df :: nat where "pos_df = pos_ucf + bw_ucf"
definition pos_Mtile :: nat where "pos_Mtile = pos_df + bw_df"
definition pos_vcuts_next :: nat where "pos_vcuts_next = pos_Mtile + bw_Mtile"
definition pos_hcuts_next :: nat where "pos_hcuts_next = pos_vcuts_next + bw_vcuts"
definition pos_kernelSize :: nat where "pos_kernelSize = pos_hcuts_next + bw_hcuts"
definition pos_stride :: nat where "pos_stride = pos_kernelSize + bw_kernelSize"

definition set_multitenant :: "Controller list \<Rightarrow> Controller list" where
  "set_multitenant cs = map (\<lambda>c. c\<lparr>wr_multitenant := True\<rparr>) cs"

text \<open>
  Lines 255 to 333. The vectors are cleared, the fields decoded, the controllers told of
  multi-tenancy, \<open>M_tile_size\<close> asserted (line 308), the vectors assigned and the word
  erased from the queue.
\<close>

definition configure :: "sys \<Rightarrow> 64 word \<Rightarrow> error + sys" where
  "configure s a =
     (let vcuts' = (2::int) ^ cfg_field a pos_vcuts bw_vcuts;
          hcuts' = (2::int) ^ cfg_field a pos_hcuts bw_hcuts;
          mcf' = (2::int) ^ cfg_field a pos_mcf bw_mcf;
          ucf' = (2::int) ^ cfg_field a pos_ucf bw_ucf;
          df' = int (cfg_field a pos_df bw_df);
          mc' = mcf' * ucf';
          ctrls' = (if vcuts' * hcuts' > 1 then set_multitenant (ctrls s) else ctrls s);
          M_tile_size' = (2::int) ^ cfg_field a pos_Mtile bw_Mtile;
          vcuts_next' = (2::int) ^ cfg_field a pos_vcuts_next bw_vcuts;
          hcuts_next' = (2::int) ^ cfg_field a pos_hcuts_next bw_hcuts;
          kernel_size' = int (cfg_field a pos_kernelSize bw_kernelSize);
          stride' = int (cfg_field a pos_stride bw_stride)
      in if \<not> M_tile_size' \<le> 2048 then Inl (AssertFail 308)
         else
           let cuts = nat (vcuts' * hcuts') in
           Inr (s\<lparr>vcuts := vcuts', hcuts := hcuts', mcf := mcf', ucf := ucf', df := df',
                  mc := mc', M_tile_size := M_tile_size',
                  vcuts_next := vcuts_next', hcuts_next := hcuts_next',
                  kernel_size := kernel_size', stride := stride',
                  base_rows_w := replicate cuts 0,
                  base_rows_in := replicate cuts 0,
                  base_rows_out := replicate cuts 0,
                  M := replicate cuts 0,
                  N := replicate cuts 0,
                  K := replicate cuts 0,
                  M_it := replicate cuts 0,
                  K_tile_it := replicate cuts 0,
                  N_it := replicate cuts 0,
                  M_out_it := replicate cuts 0,
                  N_out_tile_it := replicate cuts 0,
                  in_pim := replicate cuts False,
                  iw_status := replicate cuts 0,
                  in_cnt := replicate cuts 0,
                  out_cnt := replicate cuts (- 1),
                  vpu_cnt := replicate cuts 0,
                  in_act_placed := replicate cuts False,
                  w_act_placed := replicate cuts False,
                  out_act_placed := replicate cuts False,
                  output_valid := replicate cuts 0,
                  ctrls := ctrls',
                  pim_trans_queue := tl (pim_trans_queue s)\<rparr>))"

text \<open>
  The fields of a Load word (lines 335 to 343). \<open>dim_value\<close> is the 32-bit field narrowed
  to \<open>int\<close>, that is read as two's complement; \<open>base_row\<close> has 22 bits.
\<close>

definition load_cut_no :: "64 word \<Rightarrow> nat" where
  "load_cut_no a = unat (drop_bit 1 a AND mask bw_cutNo)"

definition load_loadType :: "64 word \<Rightarrow> nat" where
  "load_loadType a = unat (drop_bit (1 + 4) a AND mask bw_loadType)"

definition load_dim_value :: "64 word \<Rightarrow> int" where
  "load_dim_value a =
     sint (ucast (drop_bit (1 + 4 + bw_loadType) a AND mask bw_dimValue) :: 32 word)"

definition load_base_row :: "64 word \<Rightarrow> int" where
  "load_base_row a =
     uint (drop_bit (1 + 4 + bw_loadType + bw_dimValue) a AND mask bw_baseRow)"

text \<open>Lines 334 to 365: the base row is written first, then the dimension; the default
  branch of the \<open>switch\<close> exits at line 361.\<close>

definition load :: "sys \<Rightarrow> 64 word \<Rightarrow> error + sys" where
  "load s a =
     (let cut_no = load_cut_no a;
          loadType = load_loadType a;
          dim_value = load_dim_value a;
          base_row = load_base_row a;
          q = tl (pim_trans_queue s)
      in if loadType = 0 then
           ebind (wr (base_rows_w s) cut_no base_row) (\<lambda>b.
           ebind (wr (M s) cut_no dim_value) (\<lambda>d.
             Inr (s\<lparr>base_rows_w := b, M := d, pim_trans_queue := q\<rparr>)))
         else if loadType = 1 then
           ebind (wr (base_rows_out s) cut_no base_row) (\<lambda>b.
           ebind (wr (K s) cut_no dim_value) (\<lambda>d.
             Inr (s\<lparr>base_rows_out := b, K := d, pim_trans_queue := q\<rparr>)))
         else if loadType = 2 then
           ebind (wr (base_rows_in s) cut_no base_row) (\<lambda>b.
           ebind (wr (N s) cut_no dim_value) (\<lambda>d.
             Inr (s\<lparr>base_rows_in := b, N := d, pim_trans_queue := q\<rparr>)))
         else Inl (AbruptExit 361))"

text \<open>The three kinds of control word, as lines 239, 255 and 334 tell them apart.\<close>

definition is_compute :: "64 word \<Rightarrow> bool" where
  "is_compute a = (a AND 1 \<noteq> 0)"

definition is_configure :: "64 word \<Rightarrow> bool" where
  "is_configure a = (\<not> is_compute a \<and> a AND push_bit 6 1 \<noteq> 0 \<and> a AND push_bit 5 1 \<noteq> 0)"

definition is_load :: "64 word \<Rightarrow> bool" where
  "is_load a = (\<not> is_compute a \<and> \<not> is_configure a)"

text \<open>Lines 221 to 367: the decoder looks at the head of the queue only.\<close>

definition pim_decode :: "sys \<Rightarrow> error + sys" where
  "pim_decode s =
     (case pim_trans_queue s of
        [] \<Rightarrow> Inr s
      | t # rest \<Rightarrow>
          if addr t AND 1 \<noteq> 0 then compute_enable s (addr t)
          else if addr t AND push_bit 6 1 \<noteq> 0 \<and> addr t AND push_bit 5 1 \<noteq> 0
               then configure s (addr t)
          else load s (addr t))"

section \<open>The per-cut engine\<close>

text \<open>
  What the engine reads of \<open>config_\<close>, and the two operations of other classes that it
  calls: \<open>Config::AddressUnmapping\<close> and \<open>Controller::GetReadyCommand\<close> (the answer of the
  controller of a channel to a command at a clock value). Their code is in other files;
  they are parameters here.
\<close>

record env =
  channels :: int
  banks :: int
  banks_per_group :: int
  columns :: int
  BL :: int
  tCCD_L :: int
  tRCDWR :: int
  tRCDRD :: int
  AddressUnmapping :: "Address \<Rightarrow> 64 word"
  GetReadyCommand :: "nat \<Rightarrow> Command \<Rightarrow> 64 word \<Rightarrow> Command"

text \<open>
  \<open>int\<close> arithmetic: \<open>/\<close> and \<open>%\<close> of C++ truncate towards zero, which is \<open>sdiv\<close> and \<open>smod\<close>;
  where a divisor can be zero the model tests it first. Values are not bounded to 32 bits:
  signed overflow is undefined in C++ and no claim is about it.
\<close>

text \<open>The values of \<open>j\<close> in \<open>for (int j = 0; j < n; j++)\<close>.\<close>

definition for_range :: "int \<Rightarrow> int list" where
  "for_range n = map int [0..<nat n]"

text \<open>\<open>ctrls_[ch]->GetReadyCommand(cmd, clk_)\<close>.\<close>

definition ready_cmd :: "env \<Rightarrow> sys \<Rightarrow> int \<Rightarrow> Command \<Rightarrow> error + Command" where
  "ready_cmd e s ch cmd =
     (if 0 \<le> ch \<and> nat ch < length (ctrls s)
      then Inr (GetReadyCommand e (nat ch) cmd (clk s))
      else Inl OutOfBounds)"

text \<open>The layout of a cut, lines 380 to 393.\<close>

record geom =
  vcut_no :: int
  cut_height :: int
  hcut_no :: int
  cut_width :: int
  N_tile_size :: int
  N_tile_it :: int
  M_tile_it :: int
  M_current_tile_size :: int
  K_tile_size :: int
  weight_banks_reduce :: int

definition geometry :: "env \<Rightarrow> sys \<Rightarrow> nat \<Rightarrow> error + geom" where
  "geometry e s i =
     (if vcuts s = 0 \<or> hcuts s = 0 then Inl DivByZero
      else
        let N_tile_size' = 128 sdiv vcuts s in
        if N_tile_size' = 0 \<or> M_tile_size s = 0 then Inl DivByZero
        else
          let M_tile_it' = (M_it s ! i) sdiv M_tile_size s;
              cut_height' = channels e sdiv hcuts s
          in Inr \<lparr>vcut_no = int i smod vcuts s,
                  cut_height = cut_height',
                  hcut_no = int i sdiv vcuts s,
                  cut_width = banks e sdiv vcuts s,
                  N_tile_size = N_tile_size',
                  N_tile_it = (N_it s ! i) sdiv N_tile_size',
                  M_tile_it = M_tile_it',
                  M_current_tile_size =
                    (if M s ! i < M_tile_size s * (M_tile_it' + 1)
                     then (M s ! i) smod M_tile_size s else M_tile_size s),
                  K_tile_size = min (cut_height' * 16) (K s ! i),
                  weight_banks_reduce = (if df s = 1 then 16 else 1)\<rparr>)"

text \<open>
  The batch loops of the weight phase and of the write-back (lines 417 to 448 and 690 to
  720): a command that is not valid, or whose kind differs from the first of the batch,
  empties the batch and ends both loops.
\<close>

fun batch_inner :: "(int \<Rightarrow> error + Command) \<Rightarrow> int list \<Rightarrow> Command list \<Rightarrow> error + Command list" where
  "batch_inner f [] cmds = Inr cmds"
| "batch_inner f (k # ks) cmds =
     (case f k of
        Inl err \<Rightarrow> Inl err
      | Inr rc \<Rightarrow>
          if \<not> IsValid rc then Inr []
          else if cmd_type (hd (cmds @ [rc])) \<noteq> cmd_type rc then Inr []
          else batch_inner f ks (cmds @ [rc]))"

fun batch_outer :: "(int \<Rightarrow> int \<Rightarrow> error + Command) \<Rightarrow> int list \<Rightarrow> int list \<Rightarrow> Command list \<Rightarrow> error + Command list" where
  "batch_outer f [] ks cmds = Inr cmds"
| "batch_outer f (j # js) ks cmds =
     (case batch_inner (f j) ks cmds of
        Inl err \<Rightarrow> Inl err
      | Inr cmds' \<Rightarrow> if cmds' = [] then Inr [] else batch_outer f js ks cmds')"

text \<open>
  The loops of the input phase (lines 501 to 527): a command that is not valid empties the
  batch and ends the inner loop only; a kind that differs from the first sets \<open>mixed\<close>.
\<close>

fun in_inner :: "(int \<Rightarrow> error + Command) \<Rightarrow> int list \<Rightarrow> Command list \<times> bool \<Rightarrow> error + (Command list \<times> bool)" where
  "in_inner f [] cm = Inr cm"
| "in_inner f (k # ks) cm =
     (case f k of
        Inl err \<Rightarrow> Inl err
      | Inr rc \<Rightarrow>
          if \<not> IsValid rc then Inr ([], snd cm)
          else in_inner f ks
                 (fst cm @ [rc], snd cm \<or> cmd_type (hd (fst cm @ [rc])) \<noteq> cmd_type rc))"

fun in_outer :: "(int \<Rightarrow> int \<Rightarrow> error + Command) \<Rightarrow> int list \<Rightarrow> int list \<Rightarrow> Command list \<times> bool \<Rightarrow> error + (Command list \<times> bool)" where
  "in_outer f [] ks cm = Inr cm"
| "in_outer f (j # js) ks cm =
     (case in_inner (f j) ks cm of
        Inl err \<Rightarrow> Inl err
      | Inr cm' \<Rightarrow> in_outer f js ks cm')"

subsection \<open>State 0: fetching weight\<close>

text \<open>The body of the loops, lines 420 to 432: the command asked for and the answer of
  the controller.\<close>

definition w_cmd :: "env \<Rightarrow> sys \<Rightarrow> geom \<Rightarrow> nat \<Rightarrow> int \<Rightarrow> int \<Rightarrow> int \<Rightarrow> error + Command" where
  "w_cmd e s g i col_offset j k =
     (let ch = hcut_no g * cut_height g + j;
          bk = vcut_no g * cut_width g + k * weight_banks_reduce g
      in if banks_per_group e = 0 \<or> BL e = 0 then Inl DivByZero
         else if columns e sdiv BL e = 0 \<or> banks e = 0 then Inl DivByZero
         else if min (N s ! i) ((128 sdiv banks e) * weight_banks_reduce g) = 0 then Inl DivByZero
         else
           let a = \<lparr>channel = ch, rank = 0,
                    bankgroup = bk sdiv banks_per_group e,
                    bank = bk smod banks_per_group e,
                    row = base_rows_w s ! i + col_offset sdiv (columns e sdiv BL e),
                    column = col_offset smod (columns e sdiv BL e)\<rparr>;
               ty = (if (column a + 1) smod (min (N s ! i) ((128 sdiv banks e) * weight_banks_reduce g)) = 0
                        \<or> (column a + 1) smod (columns e sdiv BL e) = 0
                     then PIM_READ_PRECHARGE else PIM_READ)
           in ready_cmd e s ch \<lparr>cmd_type = ty, cmd_addr = a, hex_addr = AddressUnmapping e a\<rparr>)"

text \<open>Lines 471 to 475.\<close>

definition w_advance :: "geom \<Rightarrow> int \<Rightarrow> nat \<Rightarrow> sys \<Rightarrow> sys" where
  "w_advance g N_tile_size_per_bank i s =
     (let n = N_it s ! i + 1 in
      if n smod N_tile_size_per_bank = 0
         \<and> (N_tile_size g = N_tile_size_per_bank \<or> n smod N_tile_size g \<noteq> 0)
      then s\<lparr>N_it := (N_it s)[i := N_tile_size g * N_tile_it g],
              iw_status := (iw_status s)[i := iw_status s ! i + 1]\<rparr>
      else s\<lparr>N_it := (N_it s)[i := n]\<rparr>)"

text \<open>Lines 465 to 475, for a batch of reads that was accepted.\<close>

definition w_accept :: "geom \<Rightarrow> int \<Rightarrow> nat \<Rightarrow> Command list \<Rightarrow> sys \<Rightarrow> error + (sys \<times> Command list)" where
  "w_accept g N_tile_size_per_bank i w_cmds s =
     (if df s = 1 \<and> cmd_type (hd w_cmds) = PRECHARGE then Inr (s, w_cmds)
      else if N_tile_size_per_bank = 0 then Inl DivByZero
      else Inr (w_advance g N_tile_size_per_bank i s, w_cmds))"

text \<open>Lines 451 to 476: what becomes of the batch.\<close>

definition w_dispose :: "bool \<Rightarrow> geom \<Rightarrow> int \<Rightarrow> nat \<Rightarrow> Command list \<Rightarrow> sys \<Rightarrow> error + (sys \<times> Command list)" where
  "w_dispose wait_refresh g N_tile_size_per_bank i w_cmds s =
     (if w_cmds = [] then Inr (s, [])
      else if cmd_type (hd w_cmds) = PIM_ACTIVATE then
        (if w_act_placed s ! i \<or> wait_refresh then Inr (s, [])
         else Inr (s\<lparr>w_act_placed := (w_act_placed s)[i := True]\<rparr>, w_cmds))
      else if cmd_type (hd w_cmds) = PIM_READ_PRECHARGE then
        w_accept g N_tile_size_per_bank i w_cmds
          (s\<lparr>w_act_placed := (w_act_placed s)[i := False]\<rparr>)
      else w_accept g N_tile_size_per_bank i w_cmds s)"

text \<open>Lines 404 to 480. The result is the state and the batch \<open>w_cmds[i]\<close>.\<close>

definition fetch_weight :: "env \<Rightarrow> bool \<Rightarrow> geom \<Rightarrow> nat \<Rightarrow> sys \<Rightarrow> error + (sys \<times> Command list)" where
  "fetch_weight e wait_refresh g i s =
     (if cut_width g sdiv weight_banks_reduce g = 0 then Inl DivByZero
      else if K_tile_size g = 0 then Inl DivByZero
      else
        let N_tile_size_per_bank =
              min (N s ! i) ((N_tile_size g - 1) sdiv (cut_width g sdiv weight_banks_reduce g) + 1);
            col_offset =
              N_tile_it g * (N_tile_size_per_bank * ((K s ! i - 1) sdiv K_tile_size g + 1))
              + K_tile_it s ! i * N_tile_size_per_bank + (N_it s ! i) smod N_tile_size g
        in ebind (batch_outer (w_cmd e s g i col_offset) (for_range (cut_height g))
                    (for_range (cut_width g sdiv weight_banks_reduce g)) [])
             (\<lambda>w_cmds. w_dispose wait_refresh g N_tile_size_per_bank i w_cmds s))"

subsection \<open>State 1: weight finished\<close>

text \<open>Lines 481 to 494. The loop looks at the vector after the increment, and takes the
  increment back when it finds a cut in state 0 or 3.\<close>

definition weight_finished :: "int \<Rightarrow> nat \<Rightarrow> sys \<Rightarrow> sys" where
  "weight_finished cuts i s =
     (let s1 = s\<lparr>iw_status := (iw_status s)[i := iw_status s ! i + 1],
                 vpu_cnt := (vpu_cnt s)[i := 1]\<rparr>
      in if cuts = 1 \<and> list_ex (\<lambda>x. x = 0 \<or> x = 3) (iw_status s1)
         then s1\<lparr>iw_status := (iw_status s1)[i := iw_status s1 ! i - 1]\<rparr>
         else s1)"

subsection \<open>State 2: feeding input\<close>

text \<open>The body of the loops, lines 504 to 514. It runs only for \<open>0 \<le> k < mc\<close>, so the test
  of \<open>mc\<close> before the division never fails.\<close>

definition in_cmd :: "env \<Rightarrow> sys \<Rightarrow> geom \<Rightarrow> nat \<Rightarrow> int \<Rightarrow> int \<Rightarrow> int \<Rightarrow> error + Command" where
  "in_cmd e s g i col_offset j k =
     (let ch = hcut_no g * cut_height g + j;
          bk = vcut_no g * cut_width g + k * (cut_width g sdiv mc s)
      in if mc s = 0 \<or> banks_per_group e = 0 \<or> BL e = 0 then Inl DivByZero
         else if columns e sdiv BL e = 0 then Inl DivByZero
         else
           let a = \<lparr>channel = ch, rank = 0,
                    bankgroup = bk sdiv banks_per_group e,
                    bank = bk smod banks_per_group e,
                    row = base_rows_in s ! i + col_offset sdiv (columns e sdiv BL e),
                    column = col_offset smod (columns e sdiv BL e)\<rparr>;
               close0 = (M_it s ! i + 1 = M s ! i);
               close = (if df s = 1
                        then close0 \<and> (K_tile_it s ! i + 1) * K_tile_size g \<ge> K s ! i
                        else close0);
               ty = (if column a = columns e sdiv BL e - 1 \<or> close
                     then PIM_READ_PRECHARGE else PIM_READ)
           in ready_cmd e s ch \<lparr>cmd_type = ty, cmd_addr = a, hex_addr = AddressUnmapping e a\<rparr>)"

text \<open>
  Lines 565 to 590, the bookkeeping of an input step that was accepted, statement by
  statement: the output countdown (565 to 567), the increment of \<open>M_it\<close> (569), the end of
  a tile of rows (571 to 575), the end of the tiles of \<open>K\<close> (577 to 580), the end of the
  tiles of \<open>N\<close> (581 to 583) and the end of the computation (584 to 587).
\<close>

definition in_out_cnt :: "env \<Rightarrow> geom \<Rightarrow> nat \<Rightarrow> sys \<Rightarrow> sys" where
  "in_out_cnt e g i s =
     (if (K_tile_it s ! i + 1) * K_tile_size g \<ge> K s ! i \<and> (M_it s ! i) smod M_tile_size s = 0
      then s\<lparr>out_cnt := (out_cnt s)[i := max 1 (tCCD_L e * (3 + 16) - tRCDWR e)]\<rparr>
      else s)"

definition in_end_compute :: "nat \<Rightarrow> sys \<Rightarrow> sys" where
  "in_end_compute i s =
     (if M_it s ! i \<ge> M s ! i then s\<lparr>in_cnt := (in_cnt s)[i := - 1]\<rparr> else s)"

definition in_end_N :: "geom \<Rightarrow> nat \<Rightarrow> sys \<Rightarrow> sys" where
  "in_end_N g i s =
     (if N_it s ! i \<ge> N s ! i
      then in_end_compute i
             (s\<lparr>N_it := (N_it s)[i := 0],
                M_it := (M_it s)[i := M_tile_size s * (M_tile_it g + 1)]\<rparr>)
      else s)"

definition in_end_K :: "geom \<Rightarrow> nat \<Rightarrow> sys \<Rightarrow> sys" where
  "in_end_K g i s =
     (if K_tile_it s ! i * K_tile_size g \<ge> K s ! i
      then in_end_N g i
             (s\<lparr>K_tile_it := (K_tile_it s)[i := 0],
                N_it := (N_it s)[i := N_tile_size g * (N_tile_it g + 1)]\<rparr>)
      else s)"

definition in_end_tile :: "env \<Rightarrow> geom \<Rightarrow> nat \<Rightarrow> sys \<Rightarrow> sys" where
  "in_end_tile e g i s =
     (if (M_it s ! i) smod M_tile_size s = 0 \<or> M_it s ! i = M s ! i
      then in_end_K g i
             (s\<lparr>in_cnt := (in_cnt s)[i :=
                   max 1 (tCCD_L e * max (128 sdiv (vcuts s * mc s)) 16 - tRCDRD e)],
                iw_status := (iw_status s)[i := iw_status s ! i + 1],
                M_it := (M_it s)[i := M_tile_size s * M_tile_it g],
                K_tile_it := (K_tile_it s)[i := K_tile_it s ! i + 1]\<rparr>)
      else s)"

definition in_incr_M :: "nat \<Rightarrow> sys \<Rightarrow> sys" where
  "in_incr_M i s = s\<lparr>M_it := (M_it s)[i := M_it s ! i + 1]\<rparr>"

definition in_advance :: "env \<Rightarrow> geom \<Rightarrow> nat \<Rightarrow> sys \<Rightarrow> sys" where
  "in_advance e g i s = in_end_tile e g i (in_incr_M i (in_out_cnt e g i s))"

text \<open>Lines 557 to 590, for a batch of reads that was accepted. The assertion is at line
  563. The division by \<open>vcuts * mc\<close> of line 572 is reached with a command in the batch
  only, that is after the inner loop has run, so the test before it never fails.\<close>

definition in_accept :: "env \<Rightarrow> geom \<Rightarrow> nat \<Rightarrow> Command list \<Rightarrow> sys \<Rightarrow> error + (sys \<times> Command list)" where
  "in_accept e g i in_cmds s =
     (if vpu_cnt s ! i \<noteq> 0 then Inr (s, [])
      else if \<not> M_tile_size s > 128 sdiv vcuts s then Inl (AssertFail 563)
      else if vcuts s * mc s = 0 then Inl DivByZero
      else Inr (in_advance e g i s, in_cmds))"

text \<open>Lines 528 to 591: what becomes of the batch.\<close>

definition in_dispose :: "env \<Rightarrow> bool \<Rightarrow> int \<Rightarrow> geom \<Rightarrow> nat \<Rightarrow> Command list \<times> bool \<Rightarrow> sys \<Rightarrow> error + (sys \<times> Command list)" where
  "in_dispose e wait_refresh cuts g i cm s =
     (if cuts > 1 \<and> int (length (fst cm)) \<noteq> cut_height g then Inr (s, [])
      else
        let mixed = snd cm;
            in_cmds = (if mixed
                       then filter (\<lambda>c. \<not> (cmd_type c = PIM_READ
                                            \<or> cmd_type c = PIM_READ_PRECHARGE)) (fst cm)
                       else fst cm)
        in if in_cmds = [] then Inr (s, [])
           else if cmd_type (hd in_cmds) = PIM_ACTIVATE then
             (if (\<not> mixed \<and> in_act_placed s ! i) \<or> wait_refresh then Inr (s, [])
              else Inr (s\<lparr>in_act_placed := (in_act_placed s)[i := True]\<rparr>, in_cmds))
           else if cmd_type (hd in_cmds) = PIM_READ_PRECHARGE then
             in_accept e g i in_cmds (s\<lparr>in_act_placed := (in_act_placed s)[i := False]\<rparr>)
           else in_accept e g i in_cmds s)"

text \<open>Lines 499 to 591, after the stall counter has been decremented.\<close>

definition in_batch :: "env \<Rightarrow> bool \<Rightarrow> int \<Rightarrow> geom \<Rightarrow> nat \<Rightarrow> sys \<Rightarrow> error + (sys \<times> Command list)" where
  "in_batch e wait_refresh cuts g i s =
     (if K_tile_size g = 0 then Inl DivByZero
      else
        let col_offset =
              M_tile_it g * (M_tile_size s * ((K s ! i - 1) sdiv K_tile_size g + 1))
              + K_tile_it s ! i * M_current_tile_size g + (M_it s ! i) smod M_tile_size s
        in ebind (in_outer (in_cmd e s g i col_offset) (for_range (cut_height g))
                    (for_range (mc s)) ([], False))
             (\<lambda>cm. in_dispose e wait_refresh cuts g i cm s))"

text \<open>Lines 495 to 593. The result is the state and the batch \<open>in_cmds[i]\<close>.\<close>

definition feed_input :: "env \<Rightarrow> bool \<Rightarrow> int \<Rightarrow> geom \<Rightarrow> nat \<Rightarrow> sys \<Rightarrow> error + (sys \<times> Command list)" where
  "feed_input e wait_refresh cuts g i s =
     in_batch e wait_refresh cuts g i
       (s\<lparr>vpu_cnt := (vpu_cnt s)[i := max 0 (vpu_cnt s ! i - 1)]\<rparr>)"

subsection \<open>State 3: input finished\<close>

text \<open>Lines 594 to 602.\<close>

definition input_finished :: "nat \<Rightarrow> sys \<Rightarrow> sys" where
  "input_finished i s =
     (if in_cnt s ! i = - 1 then s
      else
        let s1 = s\<lparr>in_cnt := (in_cnt s)[i := max 0 (in_cnt s ! i - 1)]\<rparr>
        in if in_cnt s1 ! i = 0 \<and> output_valid s1 ! i = 0
           then s1\<lparr>iw_status := (iw_status s1)[i := 0]\<rparr>
           else s1)"

text \<open>The \<open>switch\<close> of line 403: the state, \<open>w_cmds[i]\<close> and \<open>in_cmds[i]\<close>.\<close>

definition phase :: "env \<Rightarrow> bool \<Rightarrow> int \<Rightarrow> geom \<Rightarrow> nat \<Rightarrow> sys \<Rightarrow> error + (sys \<times> Command list \<times> Command list)" where
  "phase e wait_refresh cuts g i s =
     (if iw_status s ! i = 0 then
        ebind (fetch_weight e wait_refresh g i s) (\<lambda>r. Inr (fst r, snd r, []))
      else if iw_status s ! i = 1 then Inr (weight_finished cuts i s, [], [])
      else if iw_status s ! i = 2 then
        ebind (feed_input e wait_refresh cuts g i s) (\<lambda>r. Inr (fst r, [], snd r))
      else if iw_status s ! i = 3 then Inr (input_finished i s, [], [])
      else Inr (s, [], []))"

subsection \<open>Output write-back\<close>

text \<open>Lines 667 and 668.\<close>

definition out_valid_inc :: "nat \<Rightarrow> sys \<Rightarrow> sys" where
  "out_valid_inc i s =
     (if out_cnt s ! i = 0
      then s\<lparr>output_valid := (output_valid s)[i := output_valid s ! i + 1]\<rparr> else s)"

definition out_cnt_dec :: "nat \<Rightarrow> sys \<Rightarrow> sys" where
  "out_cnt_dec i s =
     (if out_cnt s ! i \<noteq> - 1
      then s\<lparr>out_cnt := (out_cnt s)[i := out_cnt s ! i - 1]\<rparr> else s)"

definition out_counters :: "nat \<Rightarrow> sys \<Rightarrow> sys" where
  "out_counters i s = out_cnt_dec i (out_valid_inc i s)"

text \<open>The values of lines 676 to 689.\<close>

record ogeom =
  vcut_out_no :: int
  M_tile_size_out :: int
  M_out_tile_it :: int
  M_out :: int
  N_out :: int
  N_tile_size_out :: int
  col_offset_out :: int
  cut_height_out :: int

definition out_geometry :: "geom \<Rightarrow> nat \<Rightarrow> sys \<Rightarrow> error + ogeom" where
  "out_geometry g i s =
     (let M_tile_size_out' = (if df s = 1 then (M_tile_size s sdiv 128) * mcf s else M_tile_size s) in
      if M_tile_size_out' = 0 then Inl DivByZero
      else
        let M_out_tile_it' = (M_out_it s ! i) sdiv M_tile_size_out';
            M_out' = (if df s = 1 then max 1 ((M s ! i * mcf s) sdiv 128) else M s ! i);
            M_out_current_tile_size =
              (if M_out' < M_tile_size_out' * (M_out_tile_it' + 1)
               then M_out' smod M_tile_size_out' else M_tile_size_out');
            N_tile_size_out' = (if df s = 1 then 128 else N_tile_size g);
            N_tile_num = (N s ! i - 1) sdiv N_tile_size_out' + 1;
            N_tile_num_ch =
              N_tile_num sdiv vcuts s
              + (if N_tile_num smod vcuts s > (N_out_tile_it s ! i) smod vcuts s then 1 else 0);
            N_tile_it_ch = (N_out_tile_it s ! i) sdiv vcuts s
        in Inr \<lparr>vcut_out_no =
                   (if M s ! i = 1 then vcut_no g
                    else if vcuts s = 16 then vcut_no g sdiv 2
                    else (vcut_no g + N_out_tile_it s ! i) smod vcuts s),
                M_tile_size_out = M_tile_size_out',
                M_out_tile_it = M_out_tile_it',
                M_out = M_out',
                N_out = (if df s = 1 then 128 else N s ! i),
                N_tile_size_out = N_tile_size_out',
                col_offset_out =
                  M_out_tile_it' * (M_tile_size_out' * N_tile_num_ch)
                  + N_tile_it_ch * M_out_current_tile_size
                  + (M_out_it s ! i) smod M_tile_size_out',
                cut_height_out =
                  (if cut_height g < vcuts s then 1 else cut_height g sdiv vcuts s)\<rparr>)"

text \<open>The body of the loops, lines 692 to 704.\<close>

definition out_cmd :: "env \<Rightarrow> sys \<Rightarrow> geom \<Rightarrow> ogeom \<Rightarrow> nat \<Rightarrow> int \<Rightarrow> int \<Rightarrow> error + Command" where
  "out_cmd e s g og i j k =
     (let ch = hcut_no g * cut_height g + vcut_out_no og * cut_height_out og + j in
      if mc s = 0 \<or> banks_per_group e = 0 \<or> BL e = 0 then Inl DivByZero
      else if columns e sdiv BL e = 0 then Inl DivByZero
      else
        let bk0 = vcut_no g * cut_width g + k * (cut_width g sdiv mc s);
            bk = (if df s \<noteq> 1 then bk0 + 1 else bk0);
            a = \<lparr>channel = ch, rank = 0,
                 bankgroup = bk sdiv banks_per_group e,
                 bank = bk smod banks_per_group e,
                 row = base_rows_out s ! i + col_offset_out og sdiv (columns e sdiv BL e),
                 column = col_offset_out og smod (columns e sdiv BL e)\<rparr>;
            ty = (if column a = columns e sdiv BL e - 1 \<or> M_out_it s ! i + 1 = M_out og
                  then PIM_WRITE_PRECHARGE else PIM_WRITE)
        in ready_cmd e s ch \<lparr>cmd_type = ty, cmd_addr = a, hex_addr = AddressUnmapping e a\<rparr>)"

text \<open>Lines 746 to 757: the end of the output. The assertion is at line 746; \<open>turn_off\<close>
  ends true when no cut is left in PIM mode.\<close>

definition out_turn_off :: "geom \<Rightarrow> nat \<Rightarrow> sys \<Rightarrow> error + sys" where
  "out_turn_off g i s =
     (if in_cnt s ! i \<noteq> - 1 then Inl (AssertFail 746)
      else
        ebind (if cut_height g < vcuts s
               then wr ((in_pim s)[i := False]) (i + 1) False
               else Inr ((in_pim s)[i := False]))
          (\<lambda>ip. Inr (s\<lparr>in_pim := ip, turn_off := \<not> list_ex (\<lambda>b. b) ip\<rparr>)))"

text \<open>Lines 742 to 759: the end of the output rows.\<close>

definition out_exhaust :: "geom \<Rightarrow> ogeom \<Rightarrow> nat \<Rightarrow> sys \<Rightarrow> error + sys" where
  "out_exhaust g og i s =
     (if N_out_tile_it s ! i * N_tile_size_out og \<ge> N_out og then
        (if M_tile_size_out og * (M_out_tile_it og + 1) \<ge> M_out og
         then out_turn_off g i
                (s\<lparr>N_out_tile_it := (N_out_tile_it s)[i := 0],
                   M_out_it := (M_out_it s)[i := M_tile_size_out og * (M_out_tile_it og + 1)]\<rparr>)
         else Inr (s\<lparr>N_out_tile_it := (N_out_tile_it s)[i := 0],
                      M_out_it := (M_out_it s)[i := M_tile_size_out og * (M_out_tile_it og + 1)]\<rparr>))
      else Inr s)"

text \<open>Lines 762 and 763.\<close>

definition out_valid_dec :: "geom \<Rightarrow> nat \<Rightarrow> sys \<Rightarrow> error + sys" where
  "out_valid_dec g i s =
     ebind (if cut_height g < vcuts s
            then ebind (rd ((output_valid s)[i := output_valid s ! i - 1]) (i + 1))
                   (\<lambda>x. wr ((output_valid s)[i := output_valid s ! i - 1]) (i + 1) (x - 1))
            else Inr ((output_valid s)[i := output_valid s ! i - 1]))
       (\<lambda>ov. Inr (s\<lparr>output_valid := ov\<rparr>))"

text \<open>Lines 737 to 765, the bookkeeping of an output step that was accepted.\<close>

definition out_advance :: "geom \<Rightarrow> ogeom \<Rightarrow> nat \<Rightarrow> sys \<Rightarrow> error + sys" where
  "out_advance g og i s =
     (if (M_out_it s ! i + 1) smod M_tile_size_out og = 0 \<or> M_out_it s ! i + 1 = M_out og then
        ebind (out_exhaust g og i
                 (s\<lparr>M_out_it := (M_out_it s)[i := M_tile_size_out og * M_out_tile_it og],
                    N_out_tile_it := (N_out_tile_it s)[i := N_out_tile_it s ! i + 1]\<rparr>))
          (out_valid_dec g i)
      else Inr (s\<lparr>M_out_it := (M_out_it s)[i := M_out_it s ! i + 1]\<rparr>))"

text \<open>Lines 722 to 767: what becomes of the batch.\<close>

definition out_dispose :: "bool \<Rightarrow> geom \<Rightarrow> ogeom \<Rightarrow> nat \<Rightarrow> Command list \<Rightarrow> sys \<Rightarrow> error + (sys \<times> Command list)" where
  "out_dispose wait_refresh g og i out_cmds s =
     (if out_cmds = [] then Inr (s, [])
      else if cmd_type (hd out_cmds) = PIM_ACTIVATE then
        (if out_act_placed s ! i \<or> wait_refresh then Inr (s, [])
         else Inr (s\<lparr>out_act_placed := (out_act_placed s)[i := True]\<rparr>, out_cmds))
      else if cmd_type (hd out_cmds) = PIM_WRITE_PRECHARGE then
        ebind (out_advance g og i (s\<lparr>out_act_placed := (out_act_placed s)[i := False]\<rparr>))
          (\<lambda>s2. Inr (s2, out_cmds))
      else ebind (out_advance g og i s) (\<lambda>s2. Inr (s2, out_cmds)))"

text \<open>Lines 674 to 769. The result is the state and the batch \<open>out_cmds[i]\<close>. The bound of
  the inner loop, \<open>df == 1 ? 1 : M[i] == 1 || true ? mc : 1\<close>, is \<open>1\<close> or \<open>mc\<close>.\<close>

definition writeback :: "env \<Rightarrow> bool \<Rightarrow> bool \<Rightarrow> geom \<Rightarrow> nat \<Rightarrow> sys \<Rightarrow> error + (sys \<times> Command list)" where
  "writeback e wait_refresh output_ready g i s =
     (let out_enable = (cut_height g sdiv vcuts s > 0 \<or> vcut_no g smod 2 = 0) in
      if \<not> (output_valid s ! i > 0 \<and> output_ready \<and> out_enable) then Inr (s, [])
      else
        ebind (out_geometry g i s) (\<lambda>og.
          let k_bound = (if df s = 1 then 1 else mc s) in
          ebind (batch_outer (out_cmd e s g og i) (for_range (cut_height_out og))
                   (for_range k_bound) [])
            (\<lambda>out_cmds. out_dispose wait_refresh g og i out_cmds s)))"

subsection \<open>Handing the batches to the controllers\<close>

text \<open>Lines 770 to 789: every command goes to the lane of the controller of its own
  channel, \<open>ctrls_[it2.Channel()]\<close>. \<open>release_time_\<close> is the clock narrowed to \<open>int\<close>.\<close>

fun push_w :: "Command list \<Rightarrow> Controller list \<Rightarrow> error + Controller list" where
  "push_w [] cs = Inr cs"
| "push_w (c # rest) cs =
     (if 0 \<le> Channel c \<and> nat (Channel c) < length cs
      then push_w rest
             (cs[nat (Channel c) := (cs ! nat (Channel c))
                   \<lparr>rd_w_cmds := rd_w_cmds (cs ! nat (Channel c)) @ [c]\<rparr>])
      else Inl OutOfBounds)"

fun push_in :: "int \<Rightarrow> Command list \<Rightarrow> Controller list \<Rightarrow> error + Controller list" where
  "push_in t [] cs = Inr cs"
| "push_in t (c # rest) cs =
     (if 0 \<le> Channel c \<and> nat (Channel c) < length cs
      then push_in t rest
             (cs[nat (Channel c) := (cs ! nat (Channel c))
                   \<lparr>rd_in_cmds := rd_in_cmds (cs ! nat (Channel c)) @ [c],
                    release_time := release_time (cs ! nat (Channel c)) @ [t]\<rparr>])
      else Inl OutOfBounds)"

fun push_out :: "Command list \<Rightarrow> Controller list \<Rightarrow> error + Controller list" where
  "push_out [] cs = Inr cs"
| "push_out (c # rest) cs =
     (if 0 \<le> Channel c \<and> nat (Channel c) < length cs
      then push_out rest
             (cs[nat (Channel c) := (cs ! nat (Channel c))
                   \<lparr>wr_cmds := wr_cmds (cs ! nat (Channel c)) @ [c]\<rparr>])
      else Inl OutOfBounds)"

definition emit :: "Command list \<Rightarrow> Command list \<Rightarrow> Command list \<Rightarrow> sys \<Rightarrow> error + sys" where
  "emit w_cmds in_cmds out_cmds s =
     ebind (push_w w_cmds (ctrls s)) (\<lambda>c1.
     ebind (push_in (sint (ucast (clk s) :: 32 word)) in_cmds c1) (\<lambda>c2.
     ebind (push_out out_cmds c2) (\<lambda>c3. Inr (s\<lparr>ctrls := c3\<rparr>))))"

subsection \<open>One cut, and one tick\<close>

text \<open>
  An index into one of the per-cut vectors. The vectors are cleared and assigned together
  by Configure and never resized elsewhere, so that they have one length in every state
  that the program reaches; the engine reads \<open>in_pim[i]\<close> first, and the model tests the
  index against the other vectors right after it.
\<close>

definition vec_ok :: "sys \<Rightarrow> nat \<Rightarrow> bool" where
  "vec_ok s i =
     (i < length (base_rows_w s) \<and> i < length (base_rows_in s) \<and>
      i < length (base_rows_out s) \<and>
      i < length (M s) \<and> i < length (N s) \<and> i < length (K s) \<and>
      i < length (M_it s) \<and> i < length (K_tile_it s) \<and> i < length (N_it s) \<and>
      i < length (M_out_it s) \<and> i < length (N_out_tile_it s) \<and>
      i < length (iw_status s) \<and> i < length (in_cnt s) \<and>
      i < length (out_cnt s) \<and> i < length (vpu_cnt s) \<and>
      i < length (in_act_placed s) \<and> i < length (w_act_placed s) \<and>
      i < length (out_act_placed s) \<and> i < length (output_valid s))"

text \<open>The body of the loop over the cuts, lines 378 to 790. \<open>output_ready\<close> is taken
  before the \<open>switch\<close>.\<close>

definition cut_step :: "env \<Rightarrow> bool \<Rightarrow> bool \<Rightarrow> int \<Rightarrow> nat \<Rightarrow> sys \<Rightarrow> error + sys" where
  "cut_step e wait_refresh is_in_ref cuts i s =
     ebind (rd (in_pim s) i) (\<lambda>p.
       if \<not> p \<or> is_in_ref then Inr s
       else if \<not> vec_ok s i then Inl OutOfBounds
       else
         ebind (geometry e s i) (\<lambda>g.
           let output_ready = (iw_status s ! i = 3) in
           ebind (phase e wait_refresh cuts g i s) (\<lambda>r.
             ebind (writeback e wait_refresh output_ready g i (out_counters i (fst r))) (\<lambda>r'.
               emit (fst (snd r)) (snd (snd r)) (snd r') (fst r')))))"

fun cut_loop :: "env \<Rightarrow> bool \<Rightarrow> bool \<Rightarrow> int \<Rightarrow> nat list \<Rightarrow> sys \<Rightarrow> error + sys" where
  "cut_loop e wait_refresh is_in_ref cuts [] s = Inr s"
| "cut_loop e wait_refresh is_in_ref cuts (i # is) s =
     (case cut_step e wait_refresh is_in_ref cuts i s of
        Inl err \<Rightarrow> Inl err
      | Inr s' \<Rightarrow> cut_loop e wait_refresh is_in_ref cuts is s')"

text \<open>Lines 202 to 206.\<close>

fun clear_placed :: "nat list \<Rightarrow> sys \<Rightarrow> error + sys" where
  "clear_placed [] s = Inr s"
| "clear_placed (j # js) s =
     (case wr (in_act_placed s) j False of
        Inl err \<Rightarrow> Inl err
      | Inr a \<Rightarrow>
          (case wr (w_act_placed s) j False of
             Inl err \<Rightarrow> Inl err
           | Inr b \<Rightarrow>
               (case wr (out_act_placed s) j False of
                  Inl err \<Rightarrow> Inl err
                | Inr c \<Rightarrow>
                    clear_placed js
                      (s\<lparr>in_act_placed := a, w_act_placed := b, out_act_placed := c\<rparr>))))"

text \<open>Lines 198 to 209: the result is \<open>wait_refresh\<close> and the state.\<close>

fun refresh_loop :: "Controller list \<Rightarrow> bool \<times> sys \<Rightarrow> error + (bool \<times> sys)" where
  "refresh_loop [] ws = Inr ws"
| "refresh_loop (c # cs) ws =
     (if pim_refresh_coming c \<and> vcuts (snd ws) \<noteq> - 1 \<and> hcuts (snd ws) \<noteq> - 1
      then (case clear_placed [0..<nat (vcuts (snd ws) * hcuts (snd ws))] (snd ws) of
              Inl err \<Rightarrow> Inl err
            | Inr s' \<Rightarrow> refresh_loop cs (True, s'))
      else refresh_loop cs ws)"

text \<open>
  \<open>JedecDRAMSystem::ClockTick\<close> from line 198 to line 800: the refresh look-ahead, the
  decoder, the loop over the cuts, and the clock. The controllers are taken as they are
  after the drain of completed transactions (lines 180 to 192), and their own \<open>ClockTick\<close>
  (line 797) and the epoch statistics are code of other files: the lanes of the result
  are what the controllers find when their tick begins.
\<close>

definition ClockTick :: "env \<Rightarrow> sys \<Rightarrow> error + sys" where
  "ClockTick e s =
     ebind (refresh_loop (ctrls s) (False, s)) (\<lambda>ws.
     ebind (pim_decode (snd ws)) (\<lambda>s2.
       let is_in_ref = list_ex (\<lambda>c. IsInRef c \<or> pim_refresh_coming2 c) (ctrls s2);
           cuts = (if vcuts s2 \<noteq> - 1 \<and> hcuts s2 \<noteq> - 1 then vcuts s2 * hcuts s2 else 0)
       in ebind (cut_loop e (fst ws) is_in_ref cuts [0..<nat cuts] s2) (\<lambda>s3.
            Inr (s3\<lparr>clk := clk s3 + 1\<rparr>))))"

text \<open>Ticks in a row, each with the answers of the controllers at that tick.\<close>

fun run :: "env list \<Rightarrow> sys \<Rightarrow> error + sys" where
  "run [] s = Inr s"
| "run (e # es) s = (case ClockTick e s of Inl err \<Rightarrow> Inl err | Inr s' \<Rightarrow> run es s')"

text \<open>
  Modelled from the spec: the member initialisers are in the header, which is not part of
  the sources at hand. Before any Configure the per-cut vectors are empty, and \<open>vcuts\<close>
  and \<open>hcuts\<close> hold the value \<open>-1\<close> that lines 200 and 376 test for. The fields that a
  Configure sets before they are read are given 0.
\<close>

definition init_sys :: "nat \<Rightarrow> Controller list \<Rightarrow> sys" where
  "init_sys depth cs =
     \<lparr>vcuts = - 1, hcuts = - 1, mcf = 0, ucf = 0, df = 0, mc = 0, M_tile_size = 0,
      vcuts_next = 0, hcuts_next = 0, kernel_size = 0, stride = 0,
      base_rows_w = [], base_rows_in = [], base_rows_out = [],
      M = [], N = [], K = [],
      M_it = [], K_tile_it = [], N_it = [], M_out_it = [], N_out_tile_it = [],
      in_pim = [], iw_status = [], in_cnt = [], out_cnt = [], vpu_cnt = [],
      in_act_placed = [], w_act_placed = [], out_act_placed = [], output_valid = [],
      turn_off = False,
      pim_trans_queue = [], pim_trans_queue_depth = depth,
      ctrls = cs, clk = 0, last_req_clk = 0\<rparr>"


section \<open>Predicates and test data of the verification\<close>

text \<open>
  A system of one channel with 16 banks in groups of 4 and 128 bursts to a row, whose
  controller is ready for every command that it is asked for, and a controller with
  empty lanes that reports no refresh.
\<close>

definition env0 :: env where
  "env0 = \<lparr>channels = 1, banks = 16, banks_per_group = 4, columns = 1024, BL = 8,
           tCCD_L = 4, tRCDWR = 10, tRCDRD = 10,
           AddressUnmapping = (\<lambda>a. 0), GetReadyCommand = (\<lambda>ch c t. c)\<rparr>"

definition ctrl0 :: Controller where
  "ctrl0 = \<lparr>pim_refresh_coming = False, IsInRef = False, pim_refresh_coming2 = False,
            wr_multitenant = False, rd_w_cmds = [], rd_in_cmds = [], release_time = [],
            wr_cmds = []\<rparr>"

text \<open>A queue of control words.\<close>

definition words :: "64 word list \<Rightarrow> Transaction list" where
  "words ws = map (\<lambda>a. \<lparr>addr = a\<rparr>) ws"

text \<open>The decoder stops the process: an assertion fails or \<open>AbruptExit\<close> is called.\<close>

definition abort_error :: "error \<Rightarrow> bool" where
  "abort_error err = (case err of AssertFail l \<Rightarrow> True | AbruptExit l \<Rightarrow> True | _ \<Rightarrow> False)"

definition aborts :: "error + 'a \<Rightarrow> bool" where
  "aborts r = (case r of Inl err \<Rightarrow> abort_error err | Inr x \<Rightarrow> False)"

text \<open>Every per-cut vector has \<open>n\<close> entries.\<close>

definition vec_sized :: "sys \<Rightarrow> nat \<Rightarrow> bool" where
  "vec_sized s n =
     (length (base_rows_w s) = n \<and> length (base_rows_in s) = n \<and>
      length (base_rows_out s) = n \<and>
      length (M s) = n \<and> length (N s) = n \<and> length (K s) = n \<and>
      length (M_it s) = n \<and> length (K_tile_it s) = n \<and> length (N_it s) = n \<and>
      length (M_out_it s) = n \<and> length (N_out_tile_it s) = n \<and>
      length (in_pim s) = n \<and> length (iw_status s) = n \<and> length (in_cnt s) = n \<and>
      length (out_cnt s) = n \<and> length (vpu_cnt s) = n \<and>
      length (in_act_placed s) = n \<and> length (w_act_placed s) = n \<and>
      length (out_act_placed s) = n \<and> length (output_valid s) = n)"

text \<open>What a Load writes: the base rows and the dimensions of the cuts.\<close>

definition cut_dims :: "sys \<Rightarrow> int list \<times> int list \<times> int list \<times> int list \<times> int list \<times> int list" where
  "cut_dims s = (base_rows_w s, base_rows_in s, base_rows_out s, M s, K s, N s)"

text \<open>
  What a step of the engine on a cut keeps: the configuration, the base rows and
  dimensions, the queue and the clock (\<open>static\<close>) and the length of every other per-cut
  vector (\<open>lens\<close>).
\<close>

definition static :: "sys \<Rightarrow> (int \<times> int \<times> int \<times> int \<times> int \<times> int \<times> int) \<times> (int list \<times> int list \<times> int list \<times> int list \<times> int list \<times> int list) \<times> Transaction list \<times> 64 word" where
  "static s = ((vcuts s, hcuts s, mcf s, ucf s, df s, mc s, M_tile_size s), cut_dims s,
               pim_trans_queue s, clk s)"

definition lens :: "sys \<Rightarrow> nat list" where
  "lens s = [length (M_it s), length (K_tile_it s), length (N_it s), length (M_out_it s),
             length (N_out_tile_it s), length (in_pim s), length (iw_status s),
             length (in_cnt s), length (out_cnt s), length (vpu_cnt s),
             length (in_act_placed s), length (w_act_placed s), length (out_act_placed s),
             length (output_valid s)]"

definition frame :: "sys \<Rightarrow> sys \<Rightarrow> bool" where
  "frame s s' = (static s' = static s \<and> lens s' = lens s)"

text \<open>No placement flag is set that was not set before.\<close>

definition placed_mono :: "sys \<Rightarrow> sys \<Rightarrow> bool" where
  "placed_mono s s' =
     ((\<forall>j. in_act_placed s' ! j \<longrightarrow> in_act_placed s ! j) \<and>
      (\<forall>j. w_act_placed s' ! j \<longrightarrow> w_act_placed s ! j) \<and>
      (\<forall>j. out_act_placed s' ! j \<longrightarrow> out_act_placed s ! j))"

text \<open>The iterators \<open>M_it\<close> and \<open>N_it\<close> of every cut are not negative.\<close>

definition iters_nonneg :: "sys \<Rightarrow> bool" where
  "iters_nonneg s = ((\<forall>x\<in>set (M_it s). 0 \<le> x) \<and> (\<forall>x\<in>set (N_it s). 0 \<le> x))"

text \<open>The tile indices of the layout of a cut are not negative.\<close>

definition gpos :: "geom \<Rightarrow> sys \<Rightarrow> bool" where
  "gpos g s = (0 \<le> M_tile_it g \<and> 0 \<le> N_tile_it g \<and> 0 \<le> N_tile_size g \<and> 0 \<le> M_tile_size s)"

text \<open>What every piece of the engine before the hand-over to the controllers does to
  the state; \<open>w\<close> is \<open>wait_refresh\<close>.\<close>

definition eng :: "bool \<Rightarrow> geom \<Rightarrow> sys \<Rightarrow> sys \<Rightarrow> bool" where
  "eng w g s s' =
     (frame s s' \<and> ctrls s' = ctrls s \<and> (w \<longrightarrow> placed_mono s s') \<and>
      (gpos g s \<longrightarrow> iters_nonneg s \<longrightarrow> iters_nonneg s'))"

text \<open>The placement flags of the first \<open>n\<close> cuts are clear.\<close>

definition placed_clear :: "sys \<Rightarrow> nat \<Rightarrow> bool" where
  "placed_clear s n =
     (\<forall>j<n. \<not> in_act_placed s ! j \<and> \<not> w_act_placed s ! j \<and> \<not> out_act_placed s ! j)"

text \<open>Two states that differ in the placement flags at most.\<close>

definition but_placed :: "sys \<Rightarrow> sys \<Rightarrow> bool" where
  "but_placed s s' =
     (\<exists>a b c. s' = s\<lparr>in_act_placed := a, w_act_placed := b, out_act_placed := c\<rparr> \<and>
        length a = length (in_act_placed s) \<and> length b = length (w_act_placed s) \<and>
        length c = length (out_act_placed s))"

text \<open>The command lanes of a controller, and what it reports of refresh.\<close>

definition lanes :: "Controller \<Rightarrow> Command list \<times> Command list \<times> int list \<times> Command list" where
  "lanes c = (rd_w_cmds c, rd_in_cmds c, release_time c, wr_cmds c)"

definition refresh_state :: "Controller \<Rightarrow> bool \<times> bool \<times> bool" where
  "refresh_state c = (pim_refresh_coming c, IsInRef c, pim_refresh_coming2 c)"

text \<open>The controllers' own tick takes them into refresh, with the look-ahead still set.\<close>

definition refresh_begins :: "sys \<Rightarrow> sys" where
  "refresh_begins s =
     s\<lparr>ctrls := map (\<lambda>c. c\<lparr>pim_refresh_coming := True, IsInRef := True\<rparr>) (ctrls s)\<rparr>"

text \<open>A controller whose banks are closed: it answers every command with the activation
  that has to come first.\<close>

definition env_closed :: env where
  "env_closed = env0\<lparr>GetReadyCommand := (\<lambda>ch c t. c\<lparr>cmd_type := PIM_ACTIVATE\<rparr>)\<rparr>"

text \<open>The first \<open>n\<close> flags cleared, the others kept: what lines 202 to 206 do to one of
  the placement vectors.\<close>

definition clear_upto :: "nat \<Rightarrow> bool list \<Rightarrow> bool list" where
  "clear_upto n xs = map (\<lambda>j. n \<le> j \<and> xs ! j) [0..<length xs]"

text \<open>The state with the placement flags of the \<open>vcuts * hcuts\<close> cuts cleared.\<close>

definition placement_cleared :: "sys \<Rightarrow> sys" where
  "placement_cleared s =
     s\<lparr>in_act_placed := clear_upto (nat (vcuts s * hcuts s)) (in_act_placed s),
       w_act_placed := clear_upto (nat (vcuts s * hcuts s)) (w_act_placed s),
       out_act_placed := clear_upto (nat (vcuts s * hcuts s)) (out_act_placed s)\<rparr>"

text \<open>One cut, configured, loaded and enabled; its weight rows have been activated.\<close>

definition sys_enabled :: sys where
  "sys_enabled =
     (case run [env0, env0, env0, env0, env_closed]
             ((init_sys 8 [ctrl0])\<lparr>pim_trans_queue := words [2097248, 128, 160, 192, 3]\<rparr>) of
        Inr s \<Rightarrow> s
      | Inl err \<Rightarrow> init_sys 8 [ctrl0])"

text \<open>The flags at the indices of a list cleared, the others kept.\<close>

definition clear_set :: "nat list \<Rightarrow> bool list \<Rightarrow> bool list" where
  "clear_set js xs = map (\<lambda>j. j \<notin> set js \<and> xs ! j) [0..<length xs]"

text \<open>A batch of one kind.\<close>

definition homog :: "Command list \<Rightarrow> bool" where
  "homog cmds = (\<forall>c\<in>set cmds. cmd_type c = cmd_type (hd cmds))"

text \<open>The lanes \<open>rd_w_cmds_\<close> and \<open>wr_cmds_\<close> of every controller have grown by commands
  other than \<open>PIM_ACTIVATE\<close>.\<close>

definition no_activate_added :: "Controller list \<Rightarrow> Controller list \<Rightarrow> bool" where
  "no_activate_added cs cs' =
     (length cs' = length cs \<and>
      (\<forall>n<length cs.
         (\<exists>new. rd_w_cmds (cs' ! n) = rd_w_cmds (cs ! n) @ new \<and>
                (\<forall>c\<in>set new. cmd_type c \<noteq> PIM_ACTIVATE)) \<and>
         (\<exists>new. wr_cmds (cs' ! n) = wr_cmds (cs ! n) @ new \<and>
                (\<forall>c\<in>set new. cmd_type c \<noteq> PIM_ACTIVATE))))"

text \<open>One cut, configured and loaded, with a Compute-Enable at the head of the queue and
  a controller that reports a refresh to come.\<close>

definition sys_refresh_coming :: sys where
  "sys_refresh_coming =
     (case run [env0, env0, env0, env0]
             ((init_sys 8 [ctrl0\<lparr>pim_refresh_coming := True\<rparr>])
                \<lparr>pim_trans_queue := words [2097248, 128, 160, 192, 3]\<rparr>) of
        Inr s \<Rightarrow> s
      | Inl err \<Rightarrow> init_sys 8 [ctrl0])"

text \<open>The state that the Configure word \<open>2097376\<close> (two vertical cuts) leaves.\<close>

definition sys_two_cuts :: sys where
  "sys_two_cuts =
     (case pim_decode ((init_sys 8 [ctrl0])\<lparr>pim_trans_queue := words [2097376]\<rparr>) of
        Inr s \<Rightarrow> s
      | Inl err \<Rightarrow> init_sys 8 [ctrl0])"

section \<open>Basic lemmas\<close>

lemma ebind_Inl [simp]: "ebind (Inl err) f = Inl err"
  by (simp add: ebind_def)

lemma ebind_Inr [simp]: "ebind (Inr x) f = f x"
  by (simp add: ebind_def)

lemma ebind_eq_Inr: "ebind m f = Inr y \<longleftrightarrow> (\<exists>x. m = Inr x \<and> f x = Inr y)"
  by (cases m) simp_all

lemma ebind_eq_Inl: "ebind m f = Inl err \<longleftrightarrow> m = Inl err \<or> (\<exists>x. m = Inr x \<and> f x = Inl err)"
  by (cases m) simp_all

lemma rd_eq_Inr: "rd v i = Inr x \<longleftrightarrow> i < length v \<and> x = v ! i"
  by (auto simp: rd_def)

lemma wr_eq_Inr: "wr v i x = Inr v' \<longleftrightarrow> i < length v \<and> v' = v[i := x]"
  by (auto simp: wr_def)

lemma rd_eq_Inl: "rd v i = Inl err \<longleftrightarrow> \<not> i < length v \<and> err = OutOfBounds"
  by (auto simp: rd_def)

lemma wr_eq_Inl: "wr v i x = Inl err \<longleftrightarrow> \<not> i < length v \<and> err = OutOfBounds"
  by (auto simp: wr_def)

lemma cfg_field_bound: "cfg_field a p b < 2 ^ b"
proof -
  have "drop_bit p a AND mask b = take_bit b (drop_bit p a)"
    by (simp add: take_bit_eq_mask)
  then show ?thesis
    unfolding cfg_field_def by (simp add: unsigned_take_bit_eq)
qed

lemmas pos_defs =
  pos_stride_def pos_kernelSize_def pos_hcuts_next_def pos_vcuts_next_def
  pos_Mtile_def pos_df_def pos_ucf_def pos_mcf_def pos_hcuts_def pos_vcuts_def
  bw_Mtile_def bw_df_def bw_ucf_def bw_mcf_def bw_hcuts_def bw_vcuts_def
  bw_kernelSize_def bw_stride_def

subsection \<open>Which branch the decoder takes\<close>

lemma pim_decode_empty: "pim_trans_queue s = [] \<Longrightarrow> pim_decode s = Inr s"
  by (simp add: pim_decode_def)

lemma pim_decode_configure:
  "pim_trans_queue s = t # rest \<Longrightarrow> is_configure (addr t) \<Longrightarrow> pim_decode s = configure s (addr t)"
  by (simp add: pim_decode_def is_configure_def is_compute_def)

lemma pim_decode_load:
  "pim_trans_queue s = t # rest \<Longrightarrow> is_load (addr t) \<Longrightarrow> pim_decode s = load s (addr t)"
  by (auto simp add: pim_decode_def is_load_def is_configure_def is_compute_def)

lemma pim_decode_compute:
  "pim_trans_queue s = t # rest \<Longrightarrow> is_compute (addr t) \<Longrightarrow> pim_decode s = compute_enable s (addr t)"
  by (auto simp add: pim_decode_def is_compute_def)

lemma word_kinds: "is_compute a \<or> is_configure a \<or> is_load a"
  by (auto simp: is_load_def)

subsection \<open>The bits that tell a Configure from a Load\<close>

lemma three_is_mask: "(3 :: 64 word) = mask 2"
  by (simp add: mask_eq_exp_minus_1)

lemma loadType_bits: "(drop_bit 5 (a :: 64 word) AND mask 2 = 3) \<longleftrightarrow> bit a 5 \<and> bit a 6"
proof
  assume h: "drop_bit 5 a AND mask 2 = 3"
  have "bit (drop_bit 5 a AND mask 2) 0" "bit (drop_bit 5 a AND mask 2) 1"
    unfolding h by simp_all
  then show "bit a 5 \<and> bit a 6" by (simp add: bit_simps)
next
  assume h: "bit a 5 \<and> bit a 6"
  show "drop_bit 5 a AND mask 2 = 3"
    unfolding three_is_mask
  proof (rule bit_word_eqI)
    fix n assume "n < LENGTH(64)"
    have "n < 2 \<Longrightarrow> n = 0 \<or> n = 1" by arith
    with h show "bit (drop_bit 5 a AND mask 2) n = bit (mask 2 :: 64 word) n"
      by (auto simp add: bit_simps)
  qed
qed

lemma load_loadType_3: "load_loadType a = 3 \<longleftrightarrow> bit a 5 \<and> bit a 6"
proof -
  have "load_loadType a = 3 \<longleftrightarrow> drop_bit 5 a AND mask 2 = 3"
    unfolding load_loadType_def bw_loadType_def
    by (simp add: word_unat_eq_iff)
  then show ?thesis by (simp add: loadType_bits)
qed

lemma is_configure_bits: "is_configure a \<longleftrightarrow> \<not> bit a 0 \<and> bit a 5 \<and> bit a 6"
  using bit_iff_and_push_bit_not_eq_0 [of a 0] bit_iff_and_push_bit_not_eq_0 [of a 5]
    bit_iff_and_push_bit_not_eq_0 [of a 6]
  by (auto simp add: is_configure_def is_compute_def)

text \<open>A word with both bits of the load type set is taken for a Configure: the default
  branch of the \<open>switch\<close> of a Load is never reached.\<close>

lemma is_load_loadType: "is_load a \<Longrightarrow> load_loadType a \<noteq> 3"
  using bit_iff_and_push_bit_not_eq_0 [of a 0]
  by (auto simp add: is_load_def is_configure_bits load_loadType_3 is_compute_def)

lemma load_loadType_lt4: "load_loadType a < 4"
  using cfg_field_bound [of a 5 2] by (simp add: load_loadType_def cfg_field_def bw_loadType_def)

subsection \<open>When the decoder aborts\<close>

lemma abort_error_simps [simp]:
  "abort_error (AssertFail l)" "abort_error (AbruptExit l)" "\<not> abort_error OutOfBounds"
  "\<not> abort_error ShiftOutOfRange" "\<not> abort_error DivByZero"
  by (simp_all add: abort_error_def)

lemma aborts_simps [simp]: "aborts (Inl err) = abort_error err" "\<not> aborts (Inr x)"
  by (simp_all add: aborts_def)

lemma aborts_ebind: "aborts (ebind m f) \<longleftrightarrow> aborts m \<or> (\<exists>x. m = Inr x \<and> aborts (f x))"
  by (cases m) simp_all

lemma aborts_rd [simp]: "\<not> aborts (rd v i)"
  by (simp add: rd_def)

lemma aborts_wr [simp]: "\<not> aborts (wr v i x)"
  by (simp add: wr_def)

lemma aborts_mask_test [simp]: "\<not> aborts (mask_test a i)"
  by (simp add: mask_test_def)

lemma aborts_cut_selected_configured [simp]: "\<not> aborts (cut_selected_configured s a i)"
  by (simp add: cut_selected_configured_def aborts_ebind)

lemma aborts_configured_loop [simp]: "\<not> aborts (configured_loop s a is c)"
proof (induction "is" arbitrary: c)
  case Nil
  show ?case by simp
next
  case (Cons i "is")
  have "\<not> aborts (cut_selected_configured s a i)" by simp
  with Cons show ?case by (cases "cut_selected_configured s a i") simp_all
qed

lemma aborts_enable_loop [simp]: "\<not> aborts (enable_loop a is ip)"
proof (induction "is" arbitrary: ip)
  case Nil
  show ?case by simp
next
  case (Cons i "is")
  have m: "\<not> aborts (mask_test a i)" and w: "\<not> aborts (wr ip i True)" by simp_all
  show ?case
  proof (cases "mask_test a i")
    case (Inl err)
    with m show ?thesis by simp
  next
    case sel: (Inr sel)
    show ?thesis
    proof (cases "wr ip i True")
      case (Inl err)
      with w sel Cons show ?thesis by simp
    next
      case (Inr ip')
      with sel Cons show ?thesis by simp
    qed
  qed
qed

lemma aborts_compute_enable [simp]: "\<not> aborts (compute_enable s a)"
  by (simp add: compute_enable_def Let_def aborts_ebind)

lemma aborts_load: "aborts (load s a) \<longleftrightarrow> 3 \<le> load_loadType a"
  by (auto simp add: load_def Let_def aborts_ebind)

lemma aborts_configure: "aborts (configure s a) \<longleftrightarrow> 2048 < (2::int) ^ cfg_field a 18 4"
  by (simp add: configure_def Let_def pos_defs not_le)

subsection \<open>Bounds of the accesses of the decoder\<close>

lemma configured_loop_in_bounds:
  assumes "\<forall>i\<in>set is. i < length (M s) \<and> i < length (N s) \<and> i < length (K s)"
  shows "configured_loop s a is c \<noteq> Inl OutOfBounds"
  using assms
proof (induction "is" arbitrary: c)
  case Nil
  show ?case by simp
next
  case (Cons i "is")
  then have b: "i < length (M s)" "i < length (N s)" "i < length (K s)" by simp_all
  have "cut_selected_configured s a i \<noteq> Inl OutOfBounds"
    using b by (simp add: cut_selected_configured_def mask_test_def rd_def)
  with Cons show ?case
    by (cases "cut_selected_configured s a i") auto
qed

lemma enable_loop_in_bounds:
  assumes "\<forall>i\<in>set is. i < length ip"
  shows "enable_loop a is ip \<noteq> Inl OutOfBounds"
  using assms
proof (induction "is" arbitrary: ip)
  case Nil
  show ?case by simp
next
  case (Cons i "is")
  show ?case
  proof (cases "mask_test a i")
    case (Inl err)
    then show ?thesis by (auto simp: mask_test_def split: if_splits)
  next
    case (Inr sel)
    with Cons show ?thesis by (simp add: wr_def)
  qed
qed

lemma compute_enable_in_bounds:
  assumes "vec_sized s (nat (vcuts s * hcuts s))"
  shows "compute_enable s a \<noteq> Inl OutOfBounds"
proof -
  let ?idx = "[0..<nat (vcuts s * hcuts s)]"
  have 1: "configured_loop s (drop_bit 1 a) ?idx True \<noteq> Inl OutOfBounds"
    using assms by (intro configured_loop_in_bounds) (simp add: vec_sized_def)
  have 2: "enable_loop (drop_bit 1 a) ?idx (in_pim s) \<noteq> Inl OutOfBounds"
    using assms by (intro enable_loop_in_bounds) (simp add: vec_sized_def)
  show ?thesis
    using 1 2 by (auto simp add: compute_enable_def Let_def ebind_eq_Inl)
qed

lemma configure_in_bounds: "configure s a \<noteq> Inl OutOfBounds"
  by (simp add: configure_def Let_def)

lemma load_out_of_bounds:
  assumes "vec_sized s n" and "is_load a"
  shows "load s a = Inl OutOfBounds \<longleftrightarrow> n \<le> load_cut_no a"
proof -
  have lens: "length (base_rows_w s) = n" "length (M s) = n"
    "length (base_rows_out s) = n" "length (K s) = n"
    "length (base_rows_in s) = n" "length (N s) = n"
    using assms(1) by (simp_all add: vec_sized_def)
  have "load_loadType a \<noteq> 3" "load_loadType a < 4"
    using assms(2) by (simp_all add: is_load_loadType load_loadType_lt4)
  then consider "load_loadType a = 0" | "load_loadType a = 1" | "load_loadType a = 2" by arith
  then show ?thesis
  proof cases
    case 1
    then show ?thesis by (simp add: load_def Let_def wr_def lens not_less)
  next
    case 2
    then show ?thesis by (simp add: load_def Let_def wr_def lens not_less)
  next
    case 3
    then show ?thesis by (simp add: load_def Let_def wr_def lens not_less)
  qed
qed

lemma compute_before_configure:
  assumes "is_compute a" and "bit a 1"
  shows "pim_decode ((init_sys d cs)\<lparr>pim_trans_queue := \<lparr>addr = a\<rparr> # q\<rparr>) = Inl OutOfBounds"
proof -
  have "drop_bit 1 a AND 1 \<noteq> 0"
    using assms(2) bit_iff_and_drop_bit_eq_1 [of a 1] by simp
  then have "mask_test (drop_bit 1 a) 0 = Inr True"
    by (simp add: mask_test_def)
  then have "compute_enable ((init_sys d cs)\<lparr>pim_trans_queue := \<lparr>addr = a\<rparr> # q\<rparr>) a = Inl OutOfBounds"
    by (simp add: compute_enable_def init_sys_def cut_selected_configured_def rd_def)
  then show ?thesis
    using assms(1) by (simp add: pim_decode_def is_compute_def)
qed

lemma sys_two_cuts_facts:
  "vcuts sys_two_cuts = 2" "hcuts sys_two_cuts = 1" "vec_sized sys_two_cuts 2"
  by (simp_all add: sys_two_cuts_def pim_decode_def configure_def words_def init_sys_def
      cfg_field_def mask_eq_exp_minus_1 pos_defs Let_def vec_sized_def)

subsection \<open>Compute-Enable and the cuts that the mask leaves out\<close>

lemma configured_loop_False: "configured_loop s a is False \<noteq> Inr True"
proof (induction "is")
  case Nil
  show ?case by simp
next
  case (Cons i "is")
  then show ?case by (cases "cut_selected_configured s a i") simp_all
qed

lemma configured_loop_unselected:
  assumes "i \<in> set is" and "mask_test a i = Inr False"
  shows "configured_loop s a is c \<noteq> Inr True"
  using assms(1)
proof (induction "is" arbitrary: c)
  case Nil
  then show ?case by simp
next
  case (Cons j "is")
  show ?case
  proof (cases "j = i")
    case True
    then have "cut_selected_configured s a j = Inr False"
      using assms(2) by (simp add: cut_selected_configured_def)
    then show ?thesis by (simp add: configured_loop_False)
  next
    case False
    with Cons have "configured_loop s a is c' \<noteq> Inr True" for c' by simp
    then show ?thesis by (cases "cut_selected_configured s a j") simp_all
  qed
qed

lemma compute_enable_unselected:
  assumes "i < nat (vcuts s * hcuts s)" and "mask_test (drop_bit 1 a) i = Inr False"
      and "compute_enable s a = Inr s'"
  shows "s' = s"
proof -
  have "i \<in> set [0..<nat (vcuts s * hcuts s)]" using assms(1) by simp
  then have "configured_loop s (drop_bit 1 a) [0..<nat (vcuts s * hcuts s)] True \<noteq> Inr True"
    using assms(2) by (rule configured_loop_unselected)
  then show ?thesis
    using assms(3) by (auto simp add: compute_enable_def Let_def ebind_eq_Inr split: if_splits)
qed

lemma compute_enable_full_mask:
  "(case run (replicate 8 env0)
           ((init_sys 8 [ctrl0])\<lparr>pim_trans_queue :=
              words [2097376, 128, 160, 192, 130, 162, 194, 7]\<rparr>) of
      Inr s \<Rightarrow> in_pim s = [True, True] \<and> pim_trans_queue s = []
    | Inl err \<Rightarrow> False)"
  by code_simp

subsection \<open>A Load written twice\<close>

lemma load_idem:
  assumes "load s a = Inr s1" and "cut_dims s1' = cut_dims s1"
  shows "\<exists>s2. load s1' a = Inr s2 \<and> cut_dims s2 = cut_dims s1"
proof -
  have "load_loadType a = 0 \<or> load_loadType a = 1 \<or> load_loadType a = 2"
    using assms(1) by (auto simp add: load_def Let_def split: if_splits)
  then consider "load_loadType a = 0" | "load_loadType a = 1" | "load_loadType a = 2" by auto
  then show ?thesis
  proof cases
    case 1
    with assms show ?thesis
      by (auto simp add: load_def Let_def cut_dims_def ebind_eq_Inr wr_eq_Inr)
  next
    case 2
    with assms show ?thesis
      by (auto simp add: load_def Let_def cut_dims_def ebind_eq_Inr wr_eq_Inr)
  next
    case 3
    with assms show ?thesis
      by (auto simp add: load_def Let_def cut_dims_def ebind_eq_Inr wr_eq_Inr)
  qed
qed

section \<open>What the engine keeps\<close>

lemmas eng_defs = eng_def frame_def static_def lens_def cut_dims_def placed_mono_def
  iters_nonneg_def gpos_def

lemma eng_refl [simp]: "eng w g s s"
  by (simp add: eng_defs)

lemma frame_M_tile_size: "frame s s' \<Longrightarrow> M_tile_size s' = M_tile_size s"
  by (simp add: frame_def static_def)

lemma placed_mono_trans: "placed_mono s s' \<Longrightarrow> placed_mono s' s'' \<Longrightarrow> placed_mono s s''"
  by (simp add: placed_mono_def)

lemma eng_trans:
  assumes "eng w g s s'" and "eng w g s' s''"
  shows "eng w g s s''"
proof -
  have f: "frame s s'" "frame s' s''" using assms by (simp_all add: eng_def)
  then have 1: "frame s s''" by (simp add: frame_def)
  have 2: "ctrls s'' = ctrls s" using assms by (simp add: eng_def)
  have 3: "w \<longrightarrow> placed_mono s s''"
    using assms by (auto simp add: eng_def intro: placed_mono_trans)
  have "gpos g s' = gpos g s"
    using frame_M_tile_size [OF f(1)] by (simp add: gpos_def)
  then have 4: "gpos g s \<longrightarrow> iters_nonneg s \<longrightarrow> iters_nonneg s''"
    using assms by (simp add: eng_def)
  show ?thesis
    using 1 2 3 4 by (simp add: eng_def)
qed

lemma eng_then: "eng w g s s' \<Longrightarrow> (\<And>x. eng w g x (f x)) \<Longrightarrow> eng w g s (f s')"
  by (blast intro: eng_trans)

lemma nth_update_False: "(xs[i := False]) ! j \<Longrightarrow> xs ! j"
proof (cases "i < length xs")
  case True
  assume "(xs[i := False]) ! j"
  with True show ?thesis by (cases "i = j") simp_all
next
  case False
  assume "(xs[i := False]) ! j"
  with False show ?thesis by (simp add: list_update_beyond)
qed

lemma nonneg_update:
  assumes "\<forall>x\<in>set xs. (0::int) \<le> x" and "i < length xs \<Longrightarrow> 0 \<le> a"
  shows "\<forall>x\<in>set (xs[i := a]). 0 \<le> x"
proof (cases "i < length xs")
  case True
  have "set (xs[i := a]) \<subseteq> insert a (set xs)" by (rule set_update_subset_insert)
  with assms True show ?thesis by auto
next
  case False
  with assms(1) show ?thesis by (simp add: list_update_beyond)
qed

lemma in_set_updD: "x \<in> set (xs[i := a]) \<Longrightarrow> (i < length xs \<and> x = a) \<or> x \<in> set xs"
proof (cases "i < length xs")
  case True
  assume "x \<in> set (xs[i := a])"
  with set_update_subset_insert [of xs i a] True show ?thesis by auto
next
  case False
  assume "x \<in> set (xs[i := a])"
  with False show ?thesis by (simp add: list_update_beyond)
qed

lemma nonneg_nth: "\<forall>x\<in>set xs. (0::int) \<le> x \<Longrightarrow> i < length xs \<Longrightarrow> 0 \<le> xs ! i"
  by simp

text \<open>Updates of one vector.\<close>

lemma eng_upd:
  "eng w g s (s\<lparr>K_tile_it := (K_tile_it s)[i := a]\<rparr>)"
  "eng w g s (s\<lparr>M_out_it := (M_out_it s)[i := a]\<rparr>)"
  "eng w g s (s\<lparr>N_out_tile_it := (N_out_tile_it s)[i := a]\<rparr>)"
  "eng w g s (s\<lparr>iw_status := (iw_status s)[i := a]\<rparr>)"
  "eng w g s (s\<lparr>in_cnt := (in_cnt s)[i := a]\<rparr>)"
  "eng w g s (s\<lparr>out_cnt := (out_cnt s)[i := a]\<rparr>)"
  "eng w g s (s\<lparr>vpu_cnt := (vpu_cnt s)[i := a]\<rparr>)"
  "eng w g s (s\<lparr>output_valid := (output_valid s)[i := a]\<rparr>)"
  "eng w g s (s\<lparr>in_act_placed := (in_act_placed s)[i := False]\<rparr>)"
  "eng w g s (s\<lparr>w_act_placed := (w_act_placed s)[i := False]\<rparr>)"
  "eng w g s (s\<lparr>out_act_placed := (out_act_placed s)[i := False]\<rparr>)"
  "eng False g s (s\<lparr>in_act_placed := (in_act_placed s)[i := b]\<rparr>)"
  "eng False g s (s\<lparr>w_act_placed := (w_act_placed s)[i := b]\<rparr>)"
  "eng False g s (s\<lparr>out_act_placed := (out_act_placed s)[i := b]\<rparr>)"
  by (simp_all add: eng_defs nth_update_False)

lemma eng_upd_M_it:
  assumes "0 \<le> M_tile_size s \<Longrightarrow> 0 \<le> M_tile_it g \<Longrightarrow> i < length (M_it s) \<Longrightarrow> 0 \<le> M_it s ! i \<Longrightarrow> 0 \<le> a"
  shows "eng w g s (s\<lparr>M_it := (M_it s)[i := a]\<rparr>)"
proof -
  have "iters_nonneg (s\<lparr>M_it := (M_it s)[i := a]\<rparr>)" if h: "gpos g s" "iters_nonneg s"
  proof -
    have m: "\<forall>x\<in>set (M_it s). 0 \<le> x" using h(2) by (simp add: iters_nonneg_def)
    have "\<forall>x\<in>set ((M_it s)[i := a]). 0 \<le> x"
      using m
    proof (rule nonneg_update)
      assume "i < length (M_it s)"
      with m h(1) assms show "0 \<le> a" by (simp add: gpos_def)
    qed
    with h(2) show ?thesis by (simp add: iters_nonneg_def)
  qed
  then show ?thesis
    by (simp add: eng_def frame_def static_def lens_def cut_dims_def placed_mono_def)
qed

lemma eng_upd_N_it:
  assumes "0 \<le> N_tile_size g \<Longrightarrow> 0 \<le> N_tile_it g \<Longrightarrow> i < length (N_it s) \<Longrightarrow> 0 \<le> N_it s ! i \<Longrightarrow> 0 \<le> a"
  shows "eng w g s (s\<lparr>N_it := (N_it s)[i := a]\<rparr>)"
proof -
  have "iters_nonneg (s\<lparr>N_it := (N_it s)[i := a]\<rparr>)" if h: "gpos g s" "iters_nonneg s"
  proof -
    have m: "\<forall>x\<in>set (N_it s). 0 \<le> x" using h(2) by (simp add: iters_nonneg_def)
    have "\<forall>x\<in>set ((N_it s)[i := a]). 0 \<le> x"
      using m
    proof (rule nonneg_update)
      assume "i < length (N_it s)"
      with m h(1) assms show "0 \<le> a" by (simp add: gpos_def)
    qed
    with h(2) show ?thesis by (simp add: iters_nonneg_def)
  qed
  then show ?thesis
    by (simp add: eng_def frame_def static_def lens_def cut_dims_def placed_mono_def)
qed

text \<open>The pieces of the engine.\<close>

lemma engI:
  assumes "static s' = static s" and "lens s' = lens s" and "ctrls s' = ctrls s"
    and "w \<Longrightarrow> placed_mono s s'"
    and "gpos g s \<Longrightarrow> iters_nonneg s \<Longrightarrow> iters_nonneg s'"
  shows "eng w g s s'"
  using assms by (simp add: eng_def frame_def)

lemma iters_nonnegI:
  "\<forall>x\<in>set m. (0::int) \<le> x \<Longrightarrow> \<forall>x\<in>set n. (0::int) \<le> x \<Longrightarrow> M_it s = m \<Longrightarrow> N_it s = n
   \<Longrightarrow> iters_nonneg s"
  by (simp add: iters_nonneg_def)

lemma mult_sdiv_nonneg: "0 \<le> (a::int) \<Longrightarrow> 0 \<le> b \<Longrightarrow> 0 \<le> a * (b + 1)"
  by simp

lemma eng_w_advance: "eng w g s (w_advance g n i s)"
  unfolding w_advance_def Let_def
  by (rule engI)
     (auto simp add: static_def cut_dims_def lens_def placed_mono_def iters_nonneg_def gpos_def
       dest!: in_set_updD)

lemma eng_weight_finished: "eng w g s (weight_finished c i s)"
  unfolding weight_finished_def Let_def
  by (rule engI)
     (auto simp add: static_def cut_dims_def lens_def placed_mono_def iters_nonneg_def)

lemma eng_input_finished: "eng w g s (input_finished i s)"
  unfolding input_finished_def Let_def
  by (rule engI)
     (auto simp add: static_def cut_dims_def lens_def placed_mono_def iters_nonneg_def)

lemma eng_out_counters: "eng w g s (out_counters i s)"
  unfolding out_counters_def out_cnt_dec_def out_valid_inc_def
  by (rule engI)
     (auto simp add: static_def cut_dims_def lens_def placed_mono_def iters_nonneg_def)

lemma eng_in_out_cnt: "eng w g s (in_out_cnt e g i s)"
  by (simp add: in_out_cnt_def eng_upd)

lemma eng_in_incr_M: "eng w g s (in_incr_M i s)"
  unfolding in_incr_M_def by (rule eng_upd_M_it) simp

lemma eng_in_end_compute: "eng w g s (in_end_compute i s)"
  by (simp add: in_end_compute_def eng_upd)

lemma eng_in_end_N: "eng w g s (in_end_N g i s)"
proof (cases "N_it s ! i \<ge> N s ! i")
  case True
  have "eng w g s (s\<lparr>N_it := (N_it s)[i := 0],
                     M_it := (M_it s)[i := M_tile_size s * (M_tile_it g + 1)]\<rparr>)"
    by (rule engI)
       (auto simp add: static_def cut_dims_def lens_def placed_mono_def iters_nonneg_def gpos_def
         dest!: in_set_updD)
  then have "eng w g s (in_end_compute i
           (s\<lparr>N_it := (N_it s)[i := 0],
              M_it := (M_it s)[i := M_tile_size s * (M_tile_it g + 1)]\<rparr>))"
    by (rule eng_then) (rule eng_in_end_compute)
  with True show ?thesis by (simp add: in_end_N_def)
next
  case False
  then show ?thesis by (simp add: in_end_N_def)
qed

lemma eng_in_end_K: "eng w g s (in_end_K g i s)"
proof (cases "K_tile_it s ! i * K_tile_size g \<ge> K s ! i")
  case True
  have "eng w g s (s\<lparr>K_tile_it := (K_tile_it s)[i := 0],
              N_it := (N_it s)[i := N_tile_size g * (N_tile_it g + 1)]\<rparr>)"
    by (rule engI)
       (auto simp add: static_def cut_dims_def lens_def placed_mono_def iters_nonneg_def gpos_def
         dest!: in_set_updD)
  then have "eng w g s (in_end_N g i
           (s\<lparr>K_tile_it := (K_tile_it s)[i := 0],
              N_it := (N_it s)[i := N_tile_size g * (N_tile_it g + 1)]\<rparr>))"
    by (rule eng_then) (rule eng_in_end_N)
  with True show ?thesis by (simp add: in_end_K_def)
next
  case False
  then show ?thesis by (simp add: in_end_K_def)
qed

lemma eng_in_end_tile: "eng w g s (in_end_tile e g i s)"
proof (cases "(M_it s ! i) smod M_tile_size s = 0 \<or> M_it s ! i = M s ! i")
  case True
  have "eng w g s (s\<lparr>in_cnt := (in_cnt s)[i :=
                 max 1 (tCCD_L e * max (128 sdiv (vcuts s * mc s)) 16 - tRCDRD e)],
              iw_status := (iw_status s)[i := iw_status s ! i + 1],
              M_it := (M_it s)[i := M_tile_size s * M_tile_it g],
              K_tile_it := (K_tile_it s)[i := K_tile_it s ! i + 1]\<rparr>)"
    by (rule engI)
       (auto simp add: static_def cut_dims_def lens_def placed_mono_def iters_nonneg_def gpos_def
         dest!: in_set_updD)
  then have "eng w g s (in_end_K g i
           (s\<lparr>in_cnt := (in_cnt s)[i :=
                 max 1 (tCCD_L e * max (128 sdiv (vcuts s * mc s)) 16 - tRCDRD e)],
              iw_status := (iw_status s)[i := iw_status s ! i + 1],
              M_it := (M_it s)[i := M_tile_size s * M_tile_it g],
              K_tile_it := (K_tile_it s)[i := K_tile_it s ! i + 1]\<rparr>))"
    by (rule eng_then) (rule eng_in_end_K)
  with True show ?thesis by (simp add: in_end_tile_def del: max.bounded_iff)
next
  case False
  then show ?thesis by (simp add: in_end_tile_def)
qed

lemma eng_in_advance: "eng w g s (in_advance e g i s)"
  unfolding in_advance_def
  by (blast intro: eng_trans eng_in_out_cnt eng_in_incr_M eng_in_end_tile)


lemma eng_in_accept: "in_accept e g i cmds s = Inr r \<Longrightarrow> eng w g s (fst r)"
  by (auto simp add: in_accept_def eng_in_advance split: if_splits)

lemma eng_in_dispose: "in_dispose e w c g i cm s = Inr r \<Longrightarrow> eng w g s (fst r)"
  unfolding in_dispose_def Let_def
  by (auto split: if_splits dest!: eng_in_accept [where w = w]
      elim!: eng_trans [rotated] simp add: eng_upd)

lemma eng_in_batch: "in_batch e w c g i s = Inr r \<Longrightarrow> eng w g s (fst r)"
  by (auto simp add: in_batch_def Let_def ebind_eq_Inr split: if_splits dest: eng_in_dispose)

lemma eng_feed_input: "feed_input e w c g i s = Inr r \<Longrightarrow> eng w g s (fst r)"
  unfolding feed_input_def
  by (drule eng_in_batch) (erule eng_trans [rotated], simp add: eng_upd)

lemma eng_w_accept: "w_accept g n i cmds s = Inr r \<Longrightarrow> eng w g s (fst r)"
  by (auto simp add: w_accept_def eng_w_advance split: if_splits)

lemma eng_w_dispose: "w_dispose w g n i cmds s = Inr r \<Longrightarrow> eng w g s (fst r)"
  unfolding w_dispose_def
  by (auto split: if_splits dest!: eng_w_accept [where w = w]
      elim!: eng_trans [rotated] simp add: eng_upd)

lemma eng_fetch_weight: "fetch_weight e w g i s = Inr r \<Longrightarrow> eng w g s (fst r)"
  by (auto simp add: fetch_weight_def Let_def ebind_eq_Inr split: if_splits dest: eng_w_dispose)

lemma eng_phase: "phase e w c g i s = Inr r \<Longrightarrow> eng w g s (fst r)"
  by (auto simp add: phase_def ebind_eq_Inr eng_weight_finished eng_input_finished
      split: if_splits dest: eng_fetch_weight eng_feed_input)

lemma eng_out_turn_off: "out_turn_off g i s = Inr s' \<Longrightarrow> eng w g s s'"
  unfolding out_turn_off_def
  by (rule engI)
    (auto simp add: ebind_eq_Inr wr_eq_Inr static_def cut_dims_def lens_def placed_mono_def
      iters_nonneg_def split: if_splits)

lemma eng_out_exhaust: "out_exhaust g og i s = Inr s' \<Longrightarrow> eng w g s s'"
proof -
  assume a: "out_exhaust g og i s = Inr s'"
  have u: "eng w g s (s\<lparr>N_out_tile_it := (N_out_tile_it s)[i := 0],
                   M_out_it := (M_out_it s)[i := M_tile_size_out og * (M_out_tile_it og + 1)]\<rparr>)"
    by (rule engI)
      (auto simp add: static_def cut_dims_def lens_def placed_mono_def iters_nonneg_def)
  show ?thesis
    using a u
    by (auto simp add: out_exhaust_def split: if_splits dest!: eng_out_turn_off [where w = w]
        elim: eng_trans)
qed

lemma eng_out_valid_dec: "out_valid_dec g i s = Inr s' \<Longrightarrow> eng w g s s'"
  unfolding out_valid_dec_def
  by (rule engI)
    (auto simp add: ebind_eq_Inr wr_eq_Inr rd_eq_Inr static_def cut_dims_def lens_def placed_mono_def
      iters_nonneg_def split: if_splits)

lemma eng_out_advance: "out_advance g og i s = Inr s' \<Longrightarrow> eng w g s s'"
proof -
  assume a: "out_advance g og i s = Inr s'"
  have u: "eng w g s (s\<lparr>M_out_it := (M_out_it s)[i := M_tile_size_out og * M_out_tile_it og],
                    N_out_tile_it := (N_out_tile_it s)[i := N_out_tile_it s ! i + 1]\<rparr>)"
    by (rule engI)
      (auto simp add: static_def cut_dims_def lens_def placed_mono_def iters_nonneg_def)
  show ?thesis
    using a u
    by (auto simp add: out_advance_def ebind_eq_Inr eng_upd split: if_splits
        dest!: eng_out_exhaust [where w = w] eng_out_valid_dec [where w = w]
        elim: eng_trans)
qed

lemma eng_out_dispose: "out_dispose w g og i cmds s = Inr r \<Longrightarrow> eng w g s (fst r)"
  unfolding out_dispose_def
  by (auto split: if_splits simp add: ebind_eq_Inr eng_upd dest!: eng_out_advance [where w = w]
      elim!: eng_trans [rotated])

lemma eng_writeback: "writeback e w r g i s = Inr x \<Longrightarrow> eng w g s (fst x)"
  by (auto simp add: writeback_def Let_def ebind_eq_Inr split: if_splits dest: eng_out_dispose)

subsection \<open>One cut\<close>

lemma sdiv_nonneg: "0 \<le> a \<Longrightarrow> 0 \<le> b \<Longrightarrow> 0 \<le> (a::int) sdiv b"
  by (simp add: signed_divide_int_def sgn_if pos_imp_zdiv_nonneg_iff)

lemma geometry_gpos:
  assumes "geometry e s i = Inr g" and "0 < vcuts s" and "0 \<le> M_tile_size s"
    and "0 \<le> M_it s ! i" and "0 \<le> N_it s ! i"
  shows "gpos g s"
proof -
  have n: "0 \<le> (128::int) sdiv vcuts s" using assms(2) by (intro sdiv_nonneg) simp_all
  have g: "g = \<lparr>vcut_no = int i smod vcuts s,
                  cut_height = channels e sdiv hcuts s,
                  hcut_no = int i sdiv vcuts s,
                  cut_width = banks e sdiv vcuts s,
                  N_tile_size = 128 sdiv vcuts s,
                  N_tile_it = (N_it s ! i) sdiv (128 sdiv vcuts s),
                  M_tile_it = (M_it s ! i) sdiv M_tile_size s,
                  M_current_tile_size =
                    (if M s ! i < M_tile_size s * ((M_it s ! i) sdiv M_tile_size s + 1)
                     then (M s ! i) smod M_tile_size s else M_tile_size s),
                  K_tile_size = min (channels e sdiv hcuts s * 16) (K s ! i),
                  weight_banks_reduce = (if df s = 1 then 16 else 1)\<rparr>"
    using assms(1) by (simp add: geometry_def Let_def split: if_splits)
  show ?thesis
    unfolding gpos_def g using assms n by (simp add: sdiv_nonneg)
qed

lemma emit_state: "emit a b c s = Inr s' \<Longrightarrow> \<exists>cs. s' = s\<lparr>ctrls := cs\<rparr>"
  by (auto simp add: emit_def ebind_eq_Inr)

lemma cut_step_cases:
  assumes "cut_step e w ref c i s = Inr s'"
  shows "s' = s \<or>
    (\<not> ref \<and> i < length (in_pim s) \<and> in_pim s ! i \<and> vec_ok s i \<and>
     (\<exists>g r r'. geometry e s i = Inr g \<and> phase e w c g i s = Inr r \<and>
        writeback e w (iw_status s ! i = 3) g i (out_counters i (fst r)) = Inr r' \<and>
        emit (fst (snd r)) (snd (snd r)) (snd r') (fst r') = Inr s'))"
  using assms unfolding cut_step_def Let_def
  by (auto simp add: ebind_eq_Inr rd_eq_Inr split: if_splits)

lemma cut_step_in_ref: "cut_step e w True c i s = Inr s' \<Longrightarrow> s' = s"
  by (drule cut_step_cases) simp

lemma cut_loop_in_ref: "cut_loop e w True c is s = Inr s' \<Longrightarrow> s' = s"
proof (induction "is" arbitrary: s)
  case Nil
  then show ?case by simp
next
  case (Cons i "is")
  then show ?case
    by (cases "cut_step e w True c i s") (auto dest: cut_step_in_ref)
qed

text \<open>The state before the hand-over.\<close>

lemma cut_step_eng:
  assumes "cut_step e w ref c i s = Inr s'"
  shows "s' = s \<or> (vec_ok s i \<and> (\<exists>g x cs. geometry e s i = Inr g \<and> eng w g s x \<and> s' = x\<lparr>ctrls := cs\<rparr>))"
proof -
  from cut_step_cases [OF assms] show ?thesis
  proof
    assume "s' = s" then show ?thesis by simp
  next
    assume "\<not> ref \<and> i < length (in_pim s) \<and> in_pim s ! i \<and> vec_ok s i \<and>
     (\<exists>g r r'. geometry e s i = Inr g \<and> phase e w c g i s = Inr r \<and>
        writeback e w (iw_status s ! i = 3) g i (out_counters i (fst r)) = Inr r' \<and>
        emit (fst (snd r)) (snd (snd r)) (snd r') (fst r') = Inr s')"
    then obtain g r r' where v: "vec_ok s i" and g: "geometry e s i = Inr g"
      and p: "phase e w c g i s = Inr r"
      and wb: "writeback e w (iw_status s ! i = 3) g i (out_counters i (fst r)) = Inr r'"
      and em: "emit (fst (snd r)) (snd (snd r)) (snd r') (fst r') = Inr s'"
      by blast
    have 1: "eng w g s (fst r)" using p by (rule eng_phase)
    have 2: "eng w g (fst r) (out_counters i (fst r))" by (rule eng_out_counters)
    have 3: "eng w g (out_counters i (fst r)) (fst r')" using wb by (rule eng_writeback)
    have "eng w g s (fst r')" using 1 2 3 by (blast intro: eng_trans)
    moreover obtain cs where "s' = (fst r')\<lparr>ctrls := cs\<rparr>" using emit_state [OF em] by blast
    ultimately show ?thesis using v g by blast
  qed
qed

lemma frame_ctrls_upd: "frame s x \<Longrightarrow> frame s (x\<lparr>ctrls := cs\<rparr>)"
  by (simp add: frame_def static_def lens_def cut_dims_def)

lemma placed_mono_ctrls_upd: "placed_mono s x \<Longrightarrow> placed_mono s (x\<lparr>ctrls := cs\<rparr>)"
  by (simp add: placed_mono_def)

lemma placed_mono_refl [simp]: "placed_mono s s"
  by (simp add: placed_mono_def)

lemma frame_refl [simp]: "frame s s"
  by (simp add: frame_def)

lemma frame_trans: "frame s s' \<Longrightarrow> frame s' s'' \<Longrightarrow> frame s s''"
  by (simp add: frame_def)

lemma cut_step_frame: "cut_step e w ref c i s = Inr s' \<Longrightarrow> frame s s'"
  by (drule cut_step_eng) (auto simp add: eng_def frame_ctrls_upd)

lemma cut_step_placed: "cut_step e True ref c i s = Inr s' \<Longrightarrow> placed_mono s s'"
  by (drule cut_step_eng) (auto simp add: eng_def placed_mono_ctrls_upd)

lemma cut_step_nonneg:
  assumes "cut_step e w ref c i s = Inr s'" and "0 < vcuts s" and "0 \<le> M_tile_size s"
    and "iters_nonneg s"
  shows "iters_nonneg s'"
proof -
  from cut_step_eng [OF assms(1)] show ?thesis
  proof
    assume "s' = s" with assms(4) show ?thesis by simp
  next
    assume "vec_ok s i \<and> (\<exists>g x cs. geometry e s i = Inr g \<and> eng w g s x \<and> s' = x\<lparr>ctrls := cs\<rparr>)"
    then obtain g x cs where v: "vec_ok s i" and g: "geometry e s i = Inr g"
      and en: "eng w g s x" and s': "s' = x\<lparr>ctrls := cs\<rparr>" by blast
    have "0 \<le> M_it s ! i" "0 \<le> N_it s ! i"
      using v assms(4) by (simp_all add: vec_ok_def iters_nonneg_def)
    then have "gpos g s" using g assms(2,3) by (intro geometry_gpos) simp_all
    then have "iters_nonneg x" using en assms(4) by (simp add: eng_def)
    then show ?thesis unfolding s' by (simp add: iters_nonneg_def)
  qed
qed

subsection \<open>The loop over the cuts and the refresh look-ahead\<close>

lemma cut_loop_frame: "cut_loop e w ref c is s = Inr s' \<Longrightarrow> frame s s'"
proof (induction "is" arbitrary: s)
  case Nil
  then show ?case by simp
next
  case (Cons i "is")
  then show ?case
    by (cases "cut_step e w ref c i s") (auto dest: cut_step_frame intro: frame_trans)
qed

lemma cut_loop_placed: "cut_loop e True ref c is s = Inr s' \<Longrightarrow> placed_mono s s'"
proof (induction "is" arbitrary: s)
  case Nil
  then show ?case by simp
next
  case (Cons i "is")
  then show ?case
    by (cases "cut_step e True ref c i s") (auto dest: cut_step_placed intro: placed_mono_trans)
qed

lemma frame_vcuts: "frame s s' \<Longrightarrow> vcuts s' = vcuts s \<and> hcuts s' = hcuts s \<and> M_tile_size s' = M_tile_size s"
  by (simp add: frame_def static_def)

lemma cut_loop_nonneg:
  assumes "cut_loop e w ref c is s = Inr s'" and "0 < vcuts s" and "0 \<le> M_tile_size s"
    and "iters_nonneg s"
  shows "iters_nonneg s'"
  using assms
proof (induction "is" arbitrary: s)
  case Nil
  then show ?case by simp
next
  case (Cons i "is")
  show ?case
  proof (cases "cut_step e w ref c i s")
    case (Inl err)
    with Cons.prems(1) show ?thesis by simp
  next
    case (Inr x)
    then have l: "cut_loop e w ref c is x = Inr s'" using Cons.prems(1) by simp
    have f: "vcuts x = vcuts s \<and> hcuts x = hcuts s \<and> M_tile_size x = M_tile_size s"
      using cut_step_frame [OF Inr] by (rule frame_vcuts)
    have n: "iters_nonneg x"
      using Inr Cons.prems(2,3,4) by (rule cut_step_nonneg)
    show ?thesis
      using l f n Cons.prems(2,3) by (intro Cons.IH) simp_all
  qed
qed

lemma but_placed_refl [simp]: "but_placed s s"
  unfolding but_placed_def
  by (rule exI [of _ "in_act_placed s"], rule exI [of _ "w_act_placed s"],
      rule exI [of _ "out_act_placed s"]) simp

lemma but_placed_trans: "but_placed s s' \<Longrightarrow> but_placed s' s'' \<Longrightarrow> but_placed s s''"
  unfolding but_placed_def by fastforce

lemma clear_placed_char:
  "clear_placed js s = Inr s' \<Longrightarrow>
     but_placed s s' \<and> placed_mono s s' \<and>
     (\<forall>j\<in>set js. \<not> in_act_placed s' ! j \<and> \<not> w_act_placed s' ! j \<and> \<not> out_act_placed s' ! j)"
proof (induction js arbitrary: s)
  case Nil
  then show ?case by simp
next
  case (Cons j js)
  let ?x = "s\<lparr>in_act_placed := (in_act_placed s)[j := False],
              w_act_placed := (w_act_placed s)[j := False],
              out_act_placed := (out_act_placed s)[j := False]\<rparr>"
  from Cons.prems have b: "j < length (in_act_placed s)" "j < length (w_act_placed s)"
    "j < length (out_act_placed s)" and r: "clear_placed js ?x = Inr s'"
    by (auto simp add: wr_def split: if_splits)
  from Cons.IH [OF r] have ih: "but_placed ?x s'" "placed_mono ?x s'"
    "\<forall>j\<in>set js. \<not> in_act_placed s' ! j \<and> \<not> w_act_placed s' ! j \<and> \<not> out_act_placed s' ! j"
    by simp_all
  have 1: "but_placed s ?x"
    unfolding but_placed_def by (intro exI conjI) (rule refl, simp_all)
  have 2: "placed_mono s ?x"
    by (auto simp add: placed_mono_def dest: nth_update_False)
  have 3: "\<not> in_act_placed ?x ! j \<and> \<not> w_act_placed ?x ! j \<and> \<not> out_act_placed ?x ! j"
    using b by simp
  have 4: "\<not> in_act_placed s' ! j \<and> \<not> w_act_placed s' ! j \<and> \<not> out_act_placed s' ! j"
    using 3 ih(2) by (auto simp add: placed_mono_def)
  show ?case
    using 1 2 4 ih by (auto intro: but_placed_trans placed_mono_trans)
qed

lemma but_placed_fields:
  "but_placed s s' \<Longrightarrow> frame s s' \<and> ctrls s' = ctrls s \<and> M_it s' = M_it s \<and> N_it s' = N_it s"
  by (auto simp add: but_placed_def frame_def static_def lens_def cut_dims_def)

lemma refresh_loop_char:
  "refresh_loop cs (w, s) = Inr ws \<Longrightarrow>
     but_placed s (snd ws) \<and>
     (fst ws \<longleftrightarrow> w \<or> (list_ex pim_refresh_coming cs \<and> vcuts s \<noteq> - 1 \<and> hcuts s \<noteq> - 1)) \<and>
     ((w \<longrightarrow> placed_clear s (nat (vcuts s * hcuts s))) \<longrightarrow>
      fst ws \<longrightarrow> placed_clear (snd ws) (nat (vcuts s * hcuts s)))"
proof (induction cs arbitrary: w s)
  case Nil
  then show ?case by auto
next
  case (Cons c cs)
  show ?case
  proof (cases "pim_refresh_coming c \<and> vcuts s \<noteq> - 1 \<and> hcuts s \<noteq> - 1")
    case False
    with Cons.prems have "refresh_loop cs (w, s) = Inr ws" by auto
    from Cons.IH [OF this] False show ?thesis by auto
  next
    case True
    with Cons.prems obtain x where c: "clear_placed [0..<nat (vcuts s * hcuts s)] s = Inr x"
      and r: "refresh_loop cs (True, x) = Inr ws"
      by (auto split: sum.splits)
    from clear_placed_char [OF c] have x: "but_placed s x"
      "placed_clear x (nat (vcuts s * hcuts s))"
      by (simp_all add: placed_clear_def)
    have v: "vcuts x = vcuts s" "hcuts x = hcuts s"
      using but_placed_fields [OF x(1)] by (simp_all add: frame_def static_def)
    from Cons.IH [OF r] x v True show ?thesis
      by (auto intro: but_placed_trans)
  qed
qed

subsection \<open>The decoder and the controllers\<close>

lemma refresh_loop_none:
  "refresh_loop cs (w, s) = Inr ws \<Longrightarrow>
   \<not> (list_ex pim_refresh_coming cs \<and> vcuts s \<noteq> - 1 \<and> hcuts s \<noteq> - 1) \<Longrightarrow> ws = (w, s)"
  by (induction cs) (auto split: if_splits)

lemma enable_loop_length: "enable_loop a is ip = Inr ip' \<Longrightarrow> length ip' = length ip"
proof (induction "is" arbitrary: ip)
  case Nil
  then show ?case by simp
next
  case (Cons i "is")
  then show ?case
    by (auto simp add: wr_eq_Inr split: sum.splits if_splits)
qed

lemma compute_enable_state:
  "compute_enable s a = Inr s' \<Longrightarrow>
     s' = s \<or> (\<exists>ip. length ip = length (in_pim s) \<and>
                  s' = s\<lparr>in_pim := ip, pim_trans_queue := tl (pim_trans_queue s)\<rparr>)"
  by (auto simp add: compute_enable_def Let_def ebind_eq_Inr split: if_splits
      dest: enable_loop_length)

lemma load_state:
  "load s a = Inr s' \<Longrightarrow>
     \<exists>b d q. (s' = s\<lparr>base_rows_w := b, M := d, pim_trans_queue := q\<rparr> \<or>
              s' = s\<lparr>base_rows_out := b, K := d, pim_trans_queue := q\<rparr> \<or>
              s' = s\<lparr>base_rows_in := b, N := d, pim_trans_queue := q\<rparr>)"
  by (auto simp add: load_def Let_def ebind_eq_Inr split: if_splits)

lemma set_multitenant_lanes:
  "map lanes (set_multitenant cs) = map lanes cs"
  "map refresh_state (set_multitenant cs) = map refresh_state cs"
  by (simp_all add: set_multitenant_def lanes_def refresh_state_def)

lemma configure_ctrls:
  "configure s a = Inr s' \<Longrightarrow>
     map lanes (ctrls s') = map lanes (ctrls s) \<and>
     map refresh_state (ctrls s') = map refresh_state (ctrls s)"
  by (auto simp add: configure_def Let_def set_multitenant_lanes split: if_splits)

lemma pim_decode_ctrls:
  assumes "pim_decode s = Inr s'"
  shows "map lanes (ctrls s') = map lanes (ctrls s) \<and>
         map refresh_state (ctrls s') = map refresh_state (ctrls s)"
proof (cases "pim_trans_queue s")
  case Nil
  with assms show ?thesis by (simp add: pim_decode_def)
next
  case (Cons t rest)
  consider "is_compute (addr t)" | "is_configure (addr t)" | "is_load (addr t)"
    using word_kinds by blast
  then show ?thesis
  proof cases
    case 1
    with assms Cons have "compute_enable s (addr t) = Inr s'" by (simp add: pim_decode_compute)
    from compute_enable_state [OF this] show ?thesis by auto
  next
    case 2
    with assms Cons have "configure s (addr t) = Inr s'" by (simp add: pim_decode_configure)
    then show ?thesis by (rule configure_ctrls)
  next
    case 3
    with assms Cons have "load s (addr t) = Inr s'" by (simp add: pim_decode_load)
    from load_state [OF this] show ?thesis by auto
  qed
qed

lemma list_ex_refresh_state:
  "map refresh_state cs' = map refresh_state cs \<Longrightarrow>
   list_ex (\<lambda>c. IsInRef c \<or> pim_refresh_coming2 c) cs'
   = list_ex (\<lambda>c. IsInRef c \<or> pim_refresh_coming2 c) cs"
proof -
  assume a: "map refresh_state cs' = map refresh_state cs"
  have "list_ex (\<lambda>c. IsInRef c \<or> pim_refresh_coming2 c) xs
        = list_ex (\<lambda>r. fst (snd r) \<or> snd (snd r)) (map refresh_state xs)" for xs
    by (induction xs) (simp_all add: refresh_state_def)
  with a show ?thesis by simp
qed

subsection \<open>The refresh look-ahead, exactly\<close>

lemma clear_upto_length [simp]: "length (clear_upto n xs) = length xs"
  by (simp add: clear_upto_def)

lemma clear_upto_nth: "j < length xs \<Longrightarrow> clear_upto n xs ! j = (n \<le> j \<and> xs ! j)"
  by (simp add: clear_upto_def)

lemma clear_upto_idem: "clear_upto n (clear_upto n xs) = clear_upto n xs"
  by (rule nth_equalityI) (auto simp add: clear_upto_nth)

lemma clear_set_Nil: "clear_set [] xs = xs"
  by (rule nth_equalityI) (simp_all add: clear_set_def)

lemma clear_set_Cons: "clear_set js (xs[j := False]) = clear_set (j # js) xs"
  by (rule nth_equalityI) (auto simp add: clear_set_def nth_list_update dest: nth_update_False)

lemma clear_set_upt: "clear_set [0..<n] xs = clear_upto n xs"
  by (rule nth_equalityI) (auto simp add: clear_set_def clear_upto_def)

lemma clear_placed_exact:
  "clear_placed js s = Inr s' \<Longrightarrow>
     s' = s\<lparr>in_act_placed := clear_set js (in_act_placed s),
            w_act_placed := clear_set js (w_act_placed s),
            out_act_placed := clear_set js (out_act_placed s)\<rparr>"
proof (induction js arbitrary: s)
  case Nil
  then show ?case by (simp add: clear_set_Nil)
next
  case (Cons j js)
  let ?x = "s\<lparr>in_act_placed := (in_act_placed s)[j := False],
              w_act_placed := (w_act_placed s)[j := False],
              out_act_placed := (out_act_placed s)[j := False]\<rparr>"
  from Cons.prems have r: "clear_placed js ?x = Inr s'"
    by (auto simp add: wr_def split: if_splits)
  from Cons.IH [OF r] show ?case by (simp add: clear_set_Cons)
qed

lemma clear_placed_cleared:
  "clear_placed [0..<nat (vcuts s * hcuts s)] s = Inr s' \<Longrightarrow> s' = placement_cleared s"
  by (drule clear_placed_exact) (simp add: clear_set_upt placement_cleared_def)

lemma placement_cleared_idem: "placement_cleared (placement_cleared s) = placement_cleared s"
  by (simp add: placement_cleared_def clear_upto_idem)

lemma placement_cleared_cfg [simp]:
  "vcuts (placement_cleared s) = vcuts s" "hcuts (placement_cleared s) = hcuts s"
  "ctrls (placement_cleared s) = ctrls s"
  by (simp_all add: placement_cleared_def)

lemma refresh_loop_exact:
  "refresh_loop cs (w, s) = Inr ws \<Longrightarrow>
     snd ws = (if list_ex pim_refresh_coming cs \<and> vcuts s \<noteq> - 1 \<and> hcuts s \<noteq> - 1
               then placement_cleared s else s)"
proof (induction cs arbitrary: w s)
  case Nil
  then show ?case by auto
next
  case (Cons c cs)
  show ?case
  proof (cases "pim_refresh_coming c \<and> vcuts s \<noteq> - 1 \<and> hcuts s \<noteq> - 1")
    case False
    with Cons.prems have "refresh_loop cs (w, s) = Inr ws" by auto
    from Cons.IH [OF this] False show ?thesis by auto
  next
    case True
    with Cons.prems obtain x where c: "clear_placed [0..<nat (vcuts s * hcuts s)] s = Inr x"
      and r: "refresh_loop cs (True, x) = Inr ws"
      by (auto split: sum.splits)
    have x: "x = placement_cleared s" using c by (rule clear_placed_cleared)
    from Cons.IH [OF r] True show ?thesis
      unfolding x by (simp add: placement_cleared_idem)
  qed
qed

lemma sys_enabled_facts:
  "in_pim sys_enabled = [True]" "iw_status sys_enabled = [0]" "w_act_placed sys_enabled = [True]"
  "pim_trans_queue sys_enabled = []" "vcuts sys_enabled = 1" "hcuts sys_enabled = 1"
  by code_simp+

subsection \<open>More on the words of the decoder\<close>

lemma loadType3_is_configure: "\<not> is_compute a \<and> load_loadType a = 3 \<longleftrightarrow> is_configure a"
  using bit_iff_and_push_bit_not_eq_0 [of a 0]
  by (auto simp add: is_configure_bits load_loadType_3 is_compute_def)

lemma init_sys_sized: "vec_sized ((init_sys d cs)\<lparr>pim_trans_queue := q\<rparr>) 0"
  by (simp add: vec_sized_def init_sys_def)

lemma compute_before_configure_unselected:
  assumes "is_compute a" and "\<not> bit a 1"
  shows "pim_decode ((init_sys d cs)\<lparr>pim_trans_queue := \<lparr>addr = a\<rparr> # q\<rparr>)
         = Inr ((init_sys d cs)\<lparr>pim_trans_queue := \<lparr>addr = a\<rparr> # q\<rparr>)"
proof -
  have n: "drop_bit 1 a AND 1 \<noteq> 1"
    using assms(2) bit_iff_and_drop_bit_eq_1 [of a 1] by simp
  have "drop_bit 1 a AND 1 = 0"
  proof (cases "odd (drop_bit 1 a)")
    case True
    then have "drop_bit 1 a AND 1 = 1" by (simp add: and_one_eq odd_iff_mod_2_eq_one)
    with n show ?thesis by simp
  next
    case False
    then show ?thesis by (simp add: and_one_eq even_iff_mod_2_eq_zero)
  qed
  then have "mask_test (drop_bit 1 a) 0 = Inr False"
    by (simp add: mask_test_def)
  then have "compute_enable ((init_sys d cs)\<lparr>pim_trans_queue := \<lparr>addr = a\<rparr> # q\<rparr>) a
             = Inr ((init_sys d cs)\<lparr>pim_trans_queue := \<lparr>addr = a\<rparr> # q\<rparr>)"
    by (simp add: compute_enable_def init_sys_def cut_selected_configured_def)
  then show ?thesis
    using assms(1) by (simp add: pim_decode_def is_compute_def)
qed

subsection \<open>Batches of one kind and the lanes\<close>

lemma homog_Nil [simp]: "homog []"
  by (simp add: homog_def)

lemma homog_snoc:
  assumes "homog cmds" and "cmd_type (hd (cmds @ [c])) = cmd_type c"
  shows "homog (cmds @ [c])"
proof (cases cmds)
  case Nil
  then show ?thesis by (simp add: homog_def)
next
  case (Cons a as)
  then have h: "hd (cmds @ [c]) = a" "hd cmds = a" by simp_all
  have 1: "\<forall>x\<in>set cmds. cmd_type x = cmd_type a"
    using assms(1) unfolding homog_def h by blast
  have 2: "cmd_type c = cmd_type a"
    using assms(2) unfolding h by (rule sym)
  show ?thesis
    unfolding homog_def h using 1 2 by auto
qed

lemma batch_inner_step:
  assumes "f k = Inr rc"
  shows "batch_inner f (k # ks) cmds =
           (if \<not> IsValid rc \<or> cmd_type (hd (cmds @ [rc])) \<noteq> cmd_type rc then Inr []
            else batch_inner f ks (cmds @ [rc]))"
  using assms by simp

lemma batch_inner_homog: "batch_inner f ks cmds = Inr cmds' \<Longrightarrow> homog cmds \<Longrightarrow> homog cmds'"
proof (induction ks arbitrary: cmds)
  case Nil
  then show ?case by simp
next
  case (Cons k ks)
  show ?case
  proof (cases "f k")
    case (Inl err)
    with Cons.prems(1) show ?thesis by simp
  next
    case (Inr rc)
    note step = batch_inner_step [of f k rc ks cmds, OF Inr]
    show ?thesis
    proof (cases "\<not> IsValid rc \<or> cmd_type (hd (cmds @ [rc])) \<noteq> cmd_type rc")
      case True
      then have "batch_inner f (k # ks) cmds = Inr []"
        unfolding step by (rule if_P)
      with Cons.prems(1) have "cmds' = []" by simp
      then show ?thesis by simp
    next
      case False
      then have "batch_inner f (k # ks) cmds = batch_inner f ks (cmds @ [rc])"
        unfolding step by (rule if_not_P)
      with Cons.prems(1) have r: "batch_inner f ks (cmds @ [rc]) = Inr cmds'" by simp
      from False have "cmd_type (hd (cmds @ [rc])) = cmd_type rc" by simp
      with Cons.prems(2) have "homog (cmds @ [rc])" by (rule homog_snoc)
      with r show ?thesis by (rule Cons.IH)
    qed
  qed
qed

lemma batch_outer_homog: "batch_outer f js ks cmds = Inr cmds' \<Longrightarrow> homog cmds \<Longrightarrow> homog cmds'"
proof (induction js arbitrary: cmds)
  case Nil
  then show ?case by simp
next
  case (Cons j js)
  show ?case
  proof (cases "batch_inner (f j) ks cmds")
    case (Inl err)
    with Cons.prems show ?thesis by simp
  next
    case (Inr x)
    then have h: "homog x" using Cons.prems(2) by (rule batch_inner_homog)
    show ?thesis
    proof (cases "x = []")
      case True
      with Cons.prems Inr show ?thesis by simp
    next
      case False
      with Cons.prems Inr have "batch_outer f js ks x = Inr cmds'" by simp
      then show ?thesis using h by (rule Cons.IH)
    qed
  qed
qed

lemma homog_no_activate:
  assumes "homog cmds" and "cmds \<noteq> []" and "cmd_type (hd cmds) \<noteq> PIM_ACTIVATE"
  shows "\<forall>c\<in>set cmds. cmd_type c \<noteq> PIM_ACTIVATE"
proof
  fix c assume "c \<in> set cmds"
  with assms(1) have "cmd_type c = cmd_type (hd cmds)"
    unfolding homog_def by (rule bspec)
  with assms(3) show "cmd_type c \<noteq> PIM_ACTIVATE" by (rule ssubst [rotated])
qed

lemma w_accept_batch: "w_accept g n i cmds s = Inr r \<Longrightarrow> snd r = cmds"
  by (auto simp add: w_accept_def split: if_splits)

lemma w_dispose_True:
  "w_dispose True g n i cmds s =
     (if cmds = [] \<or> cmd_type (hd cmds) = PIM_ACTIVATE then Inr (s, [])
      else if cmd_type (hd cmds) = PIM_READ_PRECHARGE
           then w_accept g n i cmds (s\<lparr>w_act_placed := (w_act_placed s)[i := False]\<rparr>)
           else w_accept g n i cmds s)"
  by (simp add: w_dispose_def)

lemma w_dispose_no_activate:
  assumes "w_dispose True g n i cmds s = Inr r" and "homog cmds"
  shows "\<forall>c\<in>set (snd r). cmd_type c \<noteq> PIM_ACTIVATE"
proof (cases "cmds = [] \<or> cmd_type (hd cmds) = PIM_ACTIVATE")
  case True
  then have "w_dispose True g n i cmds s = Inr (s, [])"
    unfolding w_dispose_True by (rule if_P)
  with assms(1) have "r = (s, [])" by simp
  then show ?thesis by simp
next
  case False
  then have n: "cmds \<noteq> []" "cmd_type (hd cmds) \<noteq> PIM_ACTIVATE" by simp_all
  have all: "\<forall>c\<in>set cmds. cmd_type c \<noteq> PIM_ACTIVATE"
    using assms(2) n by (rule homog_no_activate)
  from False have "w_dispose True g n i cmds s =
      (if cmd_type (hd cmds) = PIM_READ_PRECHARGE
       then w_accept g n i cmds (s\<lparr>w_act_placed := (w_act_placed s)[i := False]\<rparr>)
       else w_accept g n i cmds s)"
    unfolding w_dispose_True by (rule if_not_P)
  with assms(1) have "\<exists>x. w_accept g n i cmds x = Inr r"
    by (cases "cmd_type (hd cmds) = PIM_READ_PRECHARGE") auto
  then have "snd r = cmds" by (auto dest: w_accept_batch)
  with all show ?thesis by simp
qed

lemma fetch_weight_no_activate:
  "fetch_weight e True g i s = Inr r \<Longrightarrow> \<forall>c\<in>set (snd r). cmd_type c \<noteq> PIM_ACTIVATE"
  by (auto simp add: fetch_weight_def Let_def ebind_eq_Inr split: if_splits
      dest!: batch_outer_homog dest: w_dispose_no_activate)

lemma out_dispose_True:
  "out_dispose True g og i cmds s =
     (if cmds = [] \<or> cmd_type (hd cmds) = PIM_ACTIVATE then Inr (s, [])
      else if cmd_type (hd cmds) = PIM_WRITE_PRECHARGE
           then ebind (out_advance g og i (s\<lparr>out_act_placed := (out_act_placed s)[i := False]\<rparr>))
                  (\<lambda>s2. Inr (s2, cmds))
           else ebind (out_advance g og i s) (\<lambda>s2. Inr (s2, cmds)))"
  by (simp add: out_dispose_def)

lemma out_dispose_no_activate:
  assumes "out_dispose True g og i cmds s = Inr r" and "homog cmds"
  shows "\<forall>c\<in>set (snd r). cmd_type c \<noteq> PIM_ACTIVATE"
proof (cases "cmds = [] \<or> cmd_type (hd cmds) = PIM_ACTIVATE")
  case True
  then have "out_dispose True g og i cmds s = Inr (s, [])"
    unfolding out_dispose_True by (rule if_P)
  with assms(1) have "r = (s, [])" by simp
  then show ?thesis by simp
next
  case False
  then have n: "cmds \<noteq> []" "cmd_type (hd cmds) \<noteq> PIM_ACTIVATE" by simp_all
  have all: "\<forall>c\<in>set cmds. cmd_type c \<noteq> PIM_ACTIVATE"
    using assms(2) n by (rule homog_no_activate)
  from False have "out_dispose True g og i cmds s =
      (if cmd_type (hd cmds) = PIM_WRITE_PRECHARGE
       then ebind (out_advance g og i (s\<lparr>out_act_placed := (out_act_placed s)[i := False]\<rparr>))
              (\<lambda>s2. Inr (s2, cmds))
       else ebind (out_advance g og i s) (\<lambda>s2. Inr (s2, cmds)))"
    unfolding out_dispose_True by (rule if_not_P)
  with assms(1) have "\<exists>x. ebind (out_advance g og i x) (\<lambda>s2. Inr (s2, cmds)) = Inr r"
    by (cases "cmd_type (hd cmds) = PIM_WRITE_PRECHARGE") auto
  then have "snd r = cmds" by (auto simp add: ebind_eq_Inr)
  with all show ?thesis by simp
qed

lemma writeback_no_activate:
  "writeback e True rdy g i s = Inr r \<Longrightarrow> \<forall>c\<in>set (snd r). cmd_type c \<noteq> PIM_ACTIVATE"
  by (auto simp add: writeback_def Let_def ebind_eq_Inr split: if_splits
      dest!: batch_outer_homog dest: out_dispose_no_activate)

lemma in_accept_batch: "in_accept e g i cmds s = Inr r \<Longrightarrow> snd r = [] \<or> snd r = cmds"
  by (auto simp add: in_accept_def split: if_splits)

lemma in_dispose_head:
  "in_dispose e True c g i cm s = Inr r \<Longrightarrow> snd r = [] \<or> cmd_type (hd (snd r)) \<noteq> PIM_ACTIVATE"
  unfolding in_dispose_def Let_def
  by (auto split: if_splits dest!: in_accept_batch)

lemma feed_input_head:
  "feed_input e True c g i s = Inr r \<Longrightarrow> snd r = [] \<or> cmd_type (hd (snd r)) \<noteq> PIM_ACTIVATE"
  by (auto simp add: feed_input_def in_batch_def Let_def ebind_eq_Inr split: if_splits
      dest: in_dispose_head)

lemma phase_no_activate:
  "phase e True c g i s = Inr r \<Longrightarrow> \<forall>x\<in>set (fst (snd r)). cmd_type x \<noteq> PIM_ACTIVATE"
  by (auto simp add: phase_def ebind_eq_Inr split: if_splits dest: fetch_weight_no_activate)


lemma no_activate_added_refl [simp]: "no_activate_added cs cs"
  by (simp add: no_activate_added_def)

lemma no_activate_added_trans:
  assumes "no_activate_added cs cs'" and "no_activate_added cs' cs''"
  shows "no_activate_added cs cs''"
proof -
  have l: "length cs' = length cs" "length cs'' = length cs"
    using assms by (simp_all add: no_activate_added_def)
  have "(\<exists>new. rd_w_cmds (cs'' ! n) = rd_w_cmds (cs ! n) @ new \<and>
                (\<forall>c\<in>set new. cmd_type c \<noteq> PIM_ACTIVATE)) \<and>
        (\<exists>new. wr_cmds (cs'' ! n) = wr_cmds (cs ! n) @ new \<and>
                (\<forall>c\<in>set new. cmd_type c \<noteq> PIM_ACTIVATE))" if n: "n < length cs" for n
  proof -
    from assms(1) n obtain a b where
      a: "rd_w_cmds (cs' ! n) = rd_w_cmds (cs ! n) @ a" "\<forall>c\<in>set a. cmd_type c \<noteq> PIM_ACTIVATE"
      and b: "wr_cmds (cs' ! n) = wr_cmds (cs ! n) @ b" "\<forall>c\<in>set b. cmd_type c \<noteq> PIM_ACTIVATE"
      unfolding no_activate_added_def by blast
    from assms(2) n l obtain a' b' where
      a': "rd_w_cmds (cs'' ! n) = rd_w_cmds (cs' ! n) @ a'" "\<forall>c\<in>set a'. cmd_type c \<noteq> PIM_ACTIVATE"
      and b': "wr_cmds (cs'' ! n) = wr_cmds (cs' ! n) @ b'" "\<forall>c\<in>set b'. cmd_type c \<noteq> PIM_ACTIVATE"
      unfolding no_activate_added_def by (metis (no_types, lifting))
    have 1: "rd_w_cmds (cs'' ! n) = rd_w_cmds (cs ! n) @ (a @ a')" using a(1) a'(1) by simp
    have 2: "\<forall>c\<in>set (a @ a'). cmd_type c \<noteq> PIM_ACTIVATE" using a(2) a'(2) by auto
    have 3: "wr_cmds (cs'' ! n) = wr_cmds (cs ! n) @ (b @ b')" using b(1) b'(1) by simp
    have 4: "\<forall>c\<in>set (b @ b'). cmd_type c \<noteq> PIM_ACTIVATE" using b(2) b'(2) by auto
    show ?thesis using 1 2 3 4 by blast
  qed
  then show ?thesis
    unfolding no_activate_added_def using l by blast
qed

lemma no_activate_added_same_lanes:
  assumes "map lanes cs' = map lanes cs"
  shows "no_activate_added cs cs'"
proof -
  have l: "length cs' = length cs" using assms by (rule map_eq_imp_length_eq)
  have "lanes (cs' ! n) = lanes (cs ! n)" if "n < length cs" for n
    using assms that l by (metis nth_map)
  then have "rd_w_cmds (cs' ! n) = rd_w_cmds (cs ! n) @ [] \<and> wr_cmds (cs' ! n) = wr_cmds (cs ! n) @ []"
    if "n < length cs" for n
    using that by (simp add: lanes_def)
  then show ?thesis
    unfolding no_activate_added_def using l by fastforce
qed

lemma no_activate_added_upd:
  assumes "n < length cs" and "rd_w_cmds x = rd_w_cmds (cs ! n) @ a"
    and "\<forall>c\<in>set a. cmd_type c \<noteq> PIM_ACTIVATE"
    and "wr_cmds x = wr_cmds (cs ! n) @ b" and "\<forall>c\<in>set b. cmd_type c \<noteq> PIM_ACTIVATE"
  shows "no_activate_added cs (cs[n := x])"
proof -
  have "(\<exists>new. rd_w_cmds (cs[n := x] ! m) = rd_w_cmds (cs ! m) @ new \<and>
                (\<forall>c\<in>set new. cmd_type c \<noteq> PIM_ACTIVATE)) \<and>
        (\<exists>new. wr_cmds (cs[n := x] ! m) = wr_cmds (cs ! m) @ new \<and>
                (\<forall>c\<in>set new. cmd_type c \<noteq> PIM_ACTIVATE))" if m: "m < length cs" for m
  proof (cases "m = n")
    case True
    with assms show ?thesis by auto
  next
    case False
    then have "cs[n := x] ! m = cs ! m" by simp
    then have "rd_w_cmds (cs[n := x] ! m) = rd_w_cmds (cs ! m) @ []"
      "wr_cmds (cs[n := x] ! m) = wr_cmds (cs ! m) @ []" by simp_all
    then show ?thesis by (metis empty_iff empty_set)
  qed
  then show ?thesis
    unfolding no_activate_added_def by simp
qed

lemma push_w_no_activate:
  "push_w cmds cs = Inr cs' \<Longrightarrow> \<forall>c\<in>set cmds. cmd_type c \<noteq> PIM_ACTIVATE \<Longrightarrow>
   no_activate_added cs cs'"
proof (induction cmds arbitrary: cs)
  case Nil
  then show ?case by simp
next
  case (Cons c rest)
  let ?n = "nat (Channel c)"
  let ?x = "(cs ! ?n)\<lparr>rd_w_cmds := rd_w_cmds (cs ! ?n) @ [c]\<rparr>"
  from Cons.prems(1) have n: "?n < length cs" and r: "push_w rest (cs[?n := ?x]) = Inr cs'"
    by (auto split: if_splits)
  have 1: "no_activate_added cs (cs[?n := ?x])"
    using n
  proof (rule no_activate_added_upd)
    show "rd_w_cmds ?x = rd_w_cmds (cs ! ?n) @ [c]" by simp
    show "\<forall>y\<in>set [c]. cmd_type y \<noteq> PIM_ACTIVATE" using Cons.prems(2) by simp
    show "wr_cmds ?x = wr_cmds (cs ! ?n) @ []" by simp
    show "\<forall>y\<in>set []. cmd_type y \<noteq> PIM_ACTIVATE" by simp
  qed
  have 2: "no_activate_added (cs[?n := ?x]) cs'"
    using r Cons.prems(2) by (intro Cons.IH) simp_all
  show ?case using 1 2 by (rule no_activate_added_trans)
qed

lemma push_out_no_activate:
  "push_out cmds cs = Inr cs' \<Longrightarrow> \<forall>c\<in>set cmds. cmd_type c \<noteq> PIM_ACTIVATE \<Longrightarrow>
   no_activate_added cs cs'"
proof (induction cmds arbitrary: cs)
  case Nil
  then show ?case by simp
next
  case (Cons c rest)
  let ?n = "nat (Channel c)"
  let ?x = "(cs ! ?n)\<lparr>wr_cmds := wr_cmds (cs ! ?n) @ [c]\<rparr>"
  from Cons.prems(1) have n: "?n < length cs" and r: "push_out rest (cs[?n := ?x]) = Inr cs'"
    by (auto split: if_splits)
  have 1: "no_activate_added cs (cs[?n := ?x])"
    using n
  proof (rule no_activate_added_upd)
    show "rd_w_cmds ?x = rd_w_cmds (cs ! ?n) @ []" by simp
    show "\<forall>y\<in>set []. cmd_type y \<noteq> PIM_ACTIVATE" by simp
    show "wr_cmds ?x = wr_cmds (cs ! ?n) @ [c]" by simp
    show "\<forall>y\<in>set [c]. cmd_type y \<noteq> PIM_ACTIVATE" using Cons.prems(2) by simp
  qed
  have 2: "no_activate_added (cs[?n := ?x]) cs'"
    using r Cons.prems(2) by (intro Cons.IH) simp_all
  show ?case using 1 2 by (rule no_activate_added_trans)
qed

lemma push_in_no_activate: "push_in t cmds cs = Inr cs' \<Longrightarrow> no_activate_added cs cs'"
proof (induction cmds arbitrary: cs)
  case Nil
  then show ?case by simp
next
  case (Cons c rest)
  let ?n = "nat (Channel c)"
  let ?x = "(cs ! ?n)\<lparr>rd_in_cmds := rd_in_cmds (cs ! ?n) @ [c],
                        release_time := release_time (cs ! ?n) @ [t]\<rparr>"
  from Cons.prems(1) have n: "?n < length cs" and r: "push_in t rest (cs[?n := ?x]) = Inr cs'"
    by (auto split: if_splits)
  have 1: "no_activate_added cs (cs[?n := ?x])"
    using n
  proof (rule no_activate_added_upd)
    show "rd_w_cmds ?x = rd_w_cmds (cs ! ?n) @ []" by simp
    show "\<forall>y\<in>set []. cmd_type y \<noteq> PIM_ACTIVATE" by simp
    show "wr_cmds ?x = wr_cmds (cs ! ?n) @ []" by simp
    show "\<forall>y\<in>set []. cmd_type y \<noteq> PIM_ACTIVATE" by simp
  qed
  have 2: "no_activate_added (cs[?n := ?x]) cs'"
    using r by (rule Cons.IH)
  show ?case using 1 2 by (rule no_activate_added_trans)
qed

lemma emit_no_activate:
  assumes "emit a b c s = Inr s'" and "\<forall>x\<in>set a. cmd_type x \<noteq> PIM_ACTIVATE"
    and "\<forall>x\<in>set c. cmd_type x \<noteq> PIM_ACTIVATE"
  shows "no_activate_added (ctrls s) (ctrls s')"
proof -
  from assms(1) obtain c1 c2 c3 where 1: "push_w a (ctrls s) = Inr c1"
    and 2: "push_in (sint (ucast (clk s) :: 32 word)) b c1 = Inr c2"
    and 3: "push_out c c2 = Inr c3" and s': "s' = s\<lparr>ctrls := c3\<rparr>"
    by (auto simp add: emit_def ebind_eq_Inr)
  have "no_activate_added (ctrls s) c1" using 1 assms(2) by (rule push_w_no_activate)
  moreover have "no_activate_added c1 c2" using 2 by (rule push_in_no_activate)
  moreover have "no_activate_added c2 c3" using 3 assms(3) by (rule push_out_no_activate)
  ultimately show ?thesis
    unfolding s' by (auto intro: no_activate_added_trans)
qed

lemma eng_ctrls: "eng w g s s' \<Longrightarrow> ctrls s' = ctrls s"
  by (simp add: eng_def)

lemma cut_step_no_activate:
  assumes "cut_step e True ref c i s = Inr s'"
  shows "no_activate_added (ctrls s) (ctrls s')"
proof -
  from cut_step_cases [OF assms] show ?thesis
  proof
    assume "s' = s" then show ?thesis by simp
  next
    assume "\<not> ref \<and> i < length (in_pim s) \<and> in_pim s ! i \<and> vec_ok s i \<and>
     (\<exists>g r r'. geometry e s i = Inr g \<and> phase e True c g i s = Inr r \<and>
        writeback e True (iw_status s ! i = 3) g i (out_counters i (fst r)) = Inr r' \<and>
        emit (fst (snd r)) (snd (snd r)) (snd r') (fst r') = Inr s')"
    then obtain g r r' where p: "phase e True c g i s = Inr r"
      and wb: "writeback e True (iw_status s ! i = 3) g i (out_counters i (fst r)) = Inr r'"
      and em: "emit (fst (snd r)) (snd (snd r)) (snd r') (fst r') = Inr s'"
      by blast
    have 1: "ctrls (fst r) = ctrls s" using eng_phase [OF p] by (rule eng_ctrls)
    have 2: "ctrls (out_counters i (fst r)) = ctrls (fst r)"
      using eng_out_counters [of True g "fst r" i] by (rule eng_ctrls)
    have 3: "ctrls (fst r') = ctrls (out_counters i (fst r))"
      using eng_writeback [OF wb] by (rule eng_ctrls)
    have "no_activate_added (ctrls (fst r')) (ctrls s')"
      using em phase_no_activate [OF p] writeback_no_activate [OF wb]
      by (rule emit_no_activate)
    then show ?thesis using 1 2 3 by simp
  qed
qed

lemma cut_loop_no_activate:
  "cut_loop e True ref c is s = Inr s' \<Longrightarrow> no_activate_added (ctrls s) (ctrls s')"
proof (induction "is" arbitrary: s)
  case Nil
  then show ?case by simp
next
  case (Cons i "is")
  then show ?case
    by (cases "cut_step e True ref c i s")
       (auto dest: cut_step_no_activate intro: no_activate_added_trans)
qed

subsection \<open>The placement flags through the decoder\<close>

lemma placed_clear_frame:
  assumes "placed_clear s n" and "placed_mono s s'"
  shows "placed_clear s' n"
  using assms unfolding placed_clear_def placed_mono_def by blast

lemma configure_placed_clear:
  "configure s a = Inr s' \<Longrightarrow> placed_clear s' (nat (vcuts s' * hcuts s'))"
  by (auto simp add: configure_def Let_def placed_clear_def split: if_splits)

lemma pim_decode_placed_clear:
  assumes "pim_decode s = Inr s'" and "placed_clear s (nat (vcuts s * hcuts s))"
  shows "placed_clear s' (nat (vcuts s' * hcuts s'))"
proof (cases "pim_trans_queue s")
  case Nil
  with assms show ?thesis by (simp add: pim_decode_def)
next
  case (Cons t rest)
  consider "is_compute (addr t)" | "is_configure (addr t)" | "is_load (addr t)"
    using word_kinds by blast
  then show ?thesis
  proof cases
    case 1
    with assms Cons have "compute_enable s (addr t) = Inr s'" by (simp add: pim_decode_compute)
    from compute_enable_state [OF this] assms(2) show ?thesis
      by (auto simp add: placed_clear_def)
  next
    case 2
    with assms Cons have "configure s (addr t) = Inr s'" by (simp add: pim_decode_configure)
    then show ?thesis by (rule configure_placed_clear)
  next
    case 3
    with assms Cons have "load s (addr t) = Inr s'" by (simp add: pim_decode_load)
    from load_state [OF this] assms(2) show ?thesis
      by (auto simp add: placed_clear_def)
  qed
qed

section \<open>The claims\<close>

text \<open>
  C8. \<open>WillAcceptTransaction()\<close> is true exactly when the queue of PIM transactions holds
  fewer than \<open>pim_trans_queue_depth_\<close> entries. \<open>AddTransaction(hex_addr)\<close> asserts it: when
  it holds, the call appends exactly one transaction, the one of \<open>hex_addr\<close>, records the
  clock of the request and returns true; when it does not hold the assertion fails.
\<close>

theorem add_transaction_bounded:
  "WillAcceptTransaction s = (length (pim_trans_queue s) < pim_trans_queue_depth s) \<and>
   AddTransaction s hex =
     (if WillAcceptTransaction s
      then Inr (True, s\<lparr>pim_trans_queue := pim_trans_queue s @ [\<lparr>addr = hex\<rparr>],
                        last_req_clk := clk s\<rparr>)
      else Inl (AssertFail 144))"
  by (simp add: WillAcceptTransaction_def AddTransaction_def)

text \<open>A queue of depth 1: the first word is accepted, the second fails the assertion.\<close>

theorem add_transaction_bounded_witness:
  "WillAcceptTransaction (init_sys 1 []) \<and>
   AddTransaction (init_sys 1 []) 3 =
     Inr (True, (init_sys 1 [])\<lparr>pim_trans_queue := [\<lparr>addr = 3\<rparr>], last_req_clk := 0\<rparr>) \<and>
   \<not> WillAcceptTransaction ((init_sys 1 [])\<lparr>pim_trans_queue := [\<lparr>addr = 3\<rparr>]\<rparr>) \<and>
   AddTransaction ((init_sys 1 [])\<lparr>pim_trans_queue := [\<lparr>addr = 3\<rparr>]\<rparr>) 5 = Inl (AssertFail 144)"
  using add_transaction_bounded [of "init_sys 1 []" 3]
    add_transaction_bounded [of "(init_sys 1 [])\<lparr>pim_trans_queue := [\<lparr>addr = 3\<rparr>]\<rparr>" 5]
  by (simp add: init_sys_def)

text \<open>
  C5. A Configure word at the head of the queue whose \<open>Mtile\<close> field passes the assertion of
  line 308 (\<open>M_tile_size \<le> 2048\<close>, that is a field of at most 11) is processed as follows:
  \<open>vcuts\<close>, \<open>hcuts\<close>, \<open>mcf\<close>, \<open>ucf\<close> and \<open>M_tile_size\<close> are 1 shifted left by their bit fields
  (bits 7 to 9, 10, 11 to 13, 14 to 16 and 18 to 21), \<open>df\<close>, \<open>kernel_size\<close> and \<open>stride\<close> are
  the literal fields (bit 17, bits 26 to 30 and 31 to 35), every per-cut vector has exactly
  \<open>vcuts * hcuts\<close> entries, all 0, but for \<open>out_cnt\<close>, all -1, and the flags, all false, and
  the word is erased from the queue.
\<close>

theorem configure_resizes_and_decodes:
  assumes "pim_trans_queue s = t # rest" and "is_configure (addr t)"
      and "cfg_field (addr t) 18 4 \<le> 11"
  shows "\<exists>s'. pim_decode s = Inr s' \<and>
     vcuts s' = 2 ^ cfg_field (addr t) 7 3 \<and>
     hcuts s' = 2 ^ cfg_field (addr t) 10 1 \<and>
     mcf s' = 2 ^ cfg_field (addr t) 11 3 \<and>
     ucf s' = 2 ^ cfg_field (addr t) 14 3 \<and>
     df s' = int (cfg_field (addr t) 17 1) \<and>
     M_tile_size s' = 2 ^ cfg_field (addr t) 18 4 \<and>
     kernel_size s' = int (cfg_field (addr t) 26 5) \<and>
     stride s' = int (cfg_field (addr t) 31 5) \<and>
     pim_trans_queue s' = rest \<and>
     (let cuts = nat (vcuts s' * hcuts s') in
        base_rows_w s' = replicate cuts 0 \<and> base_rows_in s' = replicate cuts 0 \<and>
        base_rows_out s' = replicate cuts 0 \<and>
        M s' = replicate cuts 0 \<and> N s' = replicate cuts 0 \<and> K s' = replicate cuts 0 \<and>
        M_it s' = replicate cuts 0 \<and> K_tile_it s' = replicate cuts 0 \<and>
        N_it s' = replicate cuts 0 \<and> M_out_it s' = replicate cuts 0 \<and>
        N_out_tile_it s' = replicate cuts 0 \<and>
        in_pim s' = replicate cuts False \<and>
        iw_status s' = replicate cuts 0 \<and> in_cnt s' = replicate cuts 0 \<and>
        out_cnt s' = replicate cuts (- 1) \<and> vpu_cnt s' = replicate cuts 0 \<and>
        in_act_placed s' = replicate cuts False \<and> w_act_placed s' = replicate cuts False \<and>
        out_act_placed s' = replicate cuts False \<and> output_valid s' = replicate cuts 0)"
proof -
  have "(2::int) ^ cfg_field (addr t) 18 4 \<le> 2 ^ 11"
    using assms(3) by (rule power_increasing) simp
  then have le: "(2::int) ^ cfg_field (addr t) pos_Mtile bw_Mtile \<le> 2048"
    by (simp add: pos_defs)
  show ?thesis
    unfolding pim_decode_configure [OF assms(1,2)] configure_def Let_def
    using le assms(1)
    by (simp add: pos_defs)
qed

lemma cfg_field_eval:
  "cfg_field 2097376 7 3 = 1" "cfg_field 2097376 10 1 = 0" "cfg_field 2097376 18 4 = 8"
  "cfg_field 2097376 11 3 = 0" "cfg_field 2097376 14 3 = 0" "cfg_field 2097376 17 1 = 0"
  by (simp_all add: cfg_field_def mask_eq_exp_minus_1)

text \<open>The word \<open>2097376\<close> configures two vertical cuts and tiles of 256 rows.\<close>

theorem configure_resizes_and_decodes_witness:
  "\<exists>s'. pim_decode ((init_sys 8 [ctrl0])\<lparr>pim_trans_queue := words [2097376]\<rparr>) = Inr s' \<and>
     vcuts s' = 2 \<and> hcuts s' = 1 \<and> mcf s' = 1 \<and> ucf s' = 1 \<and> df s' = 0 \<and>
     M_tile_size s' = 256 \<and> pim_trans_queue s' = [] \<and>
     M s' = [0, 0] \<and> M_it s' = [0, 0] \<and> out_cnt s' = [- 1, - 1] \<and> in_pim s' = [False, False]"
proof -
  have q: "pim_trans_queue ((init_sys 8 [ctrl0])\<lparr>pim_trans_queue := words [2097376]\<rparr>)
           = \<lparr>addr = 2097376\<rparr> # []"
    by (simp add: words_def)
  have c: "is_configure (addr \<lparr>addr = 2097376\<rparr>)"
    by (simp add: is_configure_def is_compute_def)
  have m: "cfg_field (addr \<lparr>addr = 2097376\<rparr>) 18 4 \<le> 11"
    by (simp add: cfg_field_def mask_eq_exp_minus_1)
  show ?thesis
    using configure_resizes_and_decodes
      [OF q c m, unfolded Transaction.simps cfg_field_eval Let_def]
    by (auto simp add: numeral_2_eq_2)
qed

text \<open>
  C7, as amended. The decoder aborts (a failed assertion or \<open>AbruptExit\<close>, both with file
  and line) exactly when the word at the head of the queue is a Configure that decodes
  \<open>M_tile_size > 2048\<close>; with an empty queue or any other word it does not. A word with bit
  0 clear whose load type field is 3 has the two bits that make it a Configure, so the
  load type of every Load is 0, 1 or 2 and the exit of line 361 is never reached.
\<close>

theorem decoder_aborts_iff:
  "(aborts (pim_decode s) \<longleftrightarrow>
      (case pim_trans_queue s of
         [] \<Rightarrow> False
       | t # rest \<Rightarrow> is_configure (addr t) \<and> 2048 < (2::int) ^ cfg_field (addr t) 18 4)) \<and>
   (\<not> is_compute a \<and> load_loadType a = 3 \<longleftrightarrow> is_configure a) \<and>
   (is_load a \<longrightarrow> load_loadType a < 3)"
proof (intro conjI impI)
  show "aborts (pim_decode s) \<longleftrightarrow>
      (case pim_trans_queue s of
         [] \<Rightarrow> False
       | t # rest \<Rightarrow> is_configure (addr t) \<and> 2048 < (2::int) ^ cfg_field (addr t) 18 4)"
  proof (cases "pim_trans_queue s")
    case Nil
    then show ?thesis by (simp add: pim_decode_def)
  next
    case (Cons t rest)
    consider "is_compute (addr t)" | "is_configure (addr t)" | "is_load (addr t)"
      using word_kinds by blast
    then show ?thesis
    proof cases
      case 1
      then have "\<not> is_configure (addr t)" by (simp add: is_configure_def)
      with 1 Cons show ?thesis by (simp add: pim_decode_compute [OF Cons])
    next
      case 2
      with Cons show ?thesis by (simp add: pim_decode_configure [OF Cons] aborts_configure)
    next
      case 3
      then have n: "\<not> is_configure (addr t)" by (simp add: is_load_def)
      have "load_loadType (addr t) \<noteq> 3" using 3 by (rule is_load_loadType)
      moreover have "load_loadType (addr t) < 4" by (rule load_loadType_lt4)
      ultimately have "\<not> 3 \<le> load_loadType (addr t)" by arith
      with 3 n Cons show ?thesis by (simp add: pim_decode_load [OF Cons] aborts_load)
    qed
  qed
next
  show "\<not> is_compute a \<and> load_loadType a = 3 \<longleftrightarrow> is_configure a"
    by (rule loadType3_is_configure)
next
  assume "is_load a"
  then have "load_loadType a \<noteq> 3" by (rule is_load_loadType)
  moreover have "load_loadType a < 4" by (rule load_loadType_lt4)
  ultimately show "load_loadType a < 3" by arith
qed

text \<open>A Configure with \<open>Mtile = 12\<close> aborts; one with \<open>Mtile = 8\<close> does not, and a Load of
  \<open>M = 1\<close> for cut 0 of two cuts is processed.\<close>

theorem decoder_aborts_iff_witness:
  "aborts (pim_decode ((init_sys 8 [ctrl0])\<lparr>pim_trans_queue := words [3145824]\<rparr>)) \<and>
   \<not> aborts (pim_decode ((init_sys 8 [ctrl0])\<lparr>pim_trans_queue := words [2097376]\<rparr>)) \<and>
   is_load 128 \<and> load_loadType 128 = 0 \<and>
   (case pim_decode (sys_two_cuts\<lparr>pim_trans_queue := words [128]\<rparr>) of
      Inr s' \<Rightarrow> M s' = [1, 0] | Inl err \<Rightarrow> False) \<and>
   \<not> aborts (pim_decode (sys_two_cuts\<lparr>pim_trans_queue := words [128]\<rparr>))"
proof -
  have 1: "(case pim_decode (sys_two_cuts\<lparr>pim_trans_queue := words [128]\<rparr>) of
      Inr s' \<Rightarrow> M s' = [1, 0] | Inl err \<Rightarrow> False)"
    by code_simp
  have 2: "pim_trans_queue (sys_two_cuts\<lparr>pim_trans_queue := words [128]\<rparr>) = \<lparr>addr = 128\<rparr> # []"
    by (simp add: words_def)
  have 3: "is_load 128" "load_loadType 128 = 0" "\<not> is_configure 128"
    by (simp_all add: is_load_def is_configure_def is_compute_def load_loadType_def
        bw_loadType_def mask_eq_exp_minus_1)
  show ?thesis
    using decoder_aborts_iff [of "(init_sys 8 [ctrl0])\<lparr>pim_trans_queue := words [3145824]\<rparr>" 128]
      decoder_aborts_iff [of "(init_sys 8 [ctrl0])\<lparr>pim_trans_queue := words [2097376]\<rparr>" 128]
      decoder_aborts_iff [of "sys_two_cuts\<lparr>pim_trans_queue := words [128]\<rparr>" 128]
      1 2 3
    by (simp add: words_def is_configure_def is_compute_def cfg_field_def mask_eq_exp_minus_1)
qed

text \<open>
  C7 as stated fails: the word \<open>96\<close> is not a Compute-Enable and carries load type 3, and
  the decoder does not abort; it takes the word for a Configure of a single cut.
\<close>

theorem load_type_3_no_abort_counterexample:
  "\<not> is_compute 96 \<and> load_loadType 96 = 3 \<and>
   \<not> aborts (pim_decode ((init_sys 8 [ctrl0])\<lparr>pim_trans_queue := words [96]\<rparr>)) \<and>
   (case pim_decode ((init_sys 8 [ctrl0])\<lparr>pim_trans_queue := words [96]\<rparr>) of
      Inr s' \<Rightarrow> vcuts s' = 1 \<and> hcuts s' = 1 \<and> M_tile_size s' = 1 \<and> pim_trans_queue s' = []
    | Inl err \<Rightarrow> False)"
  by code_simp

text \<open>
  C4, as amended. After a Configure word has been processed, the \<open>wr_multitenant\<close> flag of a
  controller is true exactly when the newly configured \<open>vcuts * hcuts\<close> is greater than 1
  or the flag was true before: Configure sets the flag and never clears it. Configuring
  \<open>vcuts = 1\<close>, \<open>hcuts = 1\<close> leaves every flag as it was.
\<close>

theorem configure_multitenant:
  assumes "pim_trans_queue s = t # rest" and "is_configure (addr t)"
      and "pim_decode s = Inr s'"
  shows "map wr_multitenant (ctrls s')
         = map (\<lambda>c. vcuts s' * hcuts s' > 1 \<or> wr_multitenant c) (ctrls s)"
proof -
  have "configure s (addr t) = Inr s'"
    using assms by (simp add: pim_decode_configure)
  then show ?thesis
    by (auto simp add: configure_def Let_def set_multitenant_def split: if_splits)
qed

text \<open>One controller that is multi-tenant already and one that is not, and the Configure
  word \<open>96\<close> (one cut).\<close>

theorem configure_multitenant_witness:
  "\<exists>s'. pim_decode ((init_sys 8 [ctrl0\<lparr>wr_multitenant := True\<rparr>, ctrl0])\<lparr>pim_trans_queue := [\<lparr>addr = 96\<rparr>]\<rparr>) = Inr s' \<and>
     vcuts s' * hcuts s' = 1 \<and> map wr_multitenant (ctrls s') = [True, False]"
proof -
  let ?s = "(init_sys 8 [ctrl0\<lparr>wr_multitenant := True\<rparr>, ctrl0])\<lparr>pim_trans_queue := [\<lparr>addr = 96\<rparr>]\<rparr>"
  have "\<exists>s'. pim_decode ?s = Inr s' \<and> vcuts s' = 1 \<and> hcuts s' = 1"
    by (simp add: pim_decode_def configure_def Let_def cfg_field_def mask_eq_exp_minus_1 pos_defs)
  then obtain s' where d: "pim_decode ?s = Inr s'" and v: "vcuts s' = 1" "hcuts s' = 1"
    by blast
  have c: "is_configure (addr \<lparr>addr = 96\<rparr>)"
    by (simp add: is_configure_def is_compute_def)
  have q: "pim_trans_queue ?s = \<lparr>addr = 96\<rparr> # []" by simp
  show ?thesis
    using configure_multitenant [OF q c d] d v
    by (simp add: init_sys_def ctrl0_def)
qed

text \<open>
  C4 as stated fails: after a Configure of two cuts and then one of a single cut,
  \<open>vcuts * hcuts = 1\<close> and the controller is still multi-tenant.
\<close>

theorem configure_keeps_multitenant_counterexample:
  "(case run [env0, env0] ((init_sys 8 [ctrl0])\<lparr>pim_trans_queue := words [2097376, 96]\<rparr>) of
      Inr s \<Rightarrow> vcuts s * hcuts s = 1 \<and> map wr_multitenant (ctrls s) = [True]
    | Inl err \<Rightarrow> False)"
  by code_simp

text \<open>
  C10, as amended. The decoder indexes the per-cut vectors without a test, and an access
  is in bounds only when the vectors have more entries than the index.
  Before any Configure, \<open>vcuts * hcuts\<close> is \<open>(-1) * (-1) = 1\<close> and the vectors are empty: a
  Compute-Enable reads \<open>M[0]\<close> out of bounds exactly when its mask selects cut 0 (bit 1 of
  the word); with that bit clear the \<open>&&\<close> of line 244 skips the read and the word is left
  at the head of the queue. Every Load before any Configure writes out of bounds.
  With vectors of \<open>n\<close> entries a Load writes out of bounds exactly when its \<open>cut_no\<close> field
  is \<open>n\<close> or more; with vectors of \<open>vcuts * hcuts\<close> entries, as a Configure leaves them, a
  Compute-Enable and a Configure never go out of bounds.
\<close>

theorem decoder_bounds:
  "(is_compute a \<longrightarrow>
      vcuts (init_sys d cs) * hcuts (init_sys d cs) = 1 \<and>
      pim_decode ((init_sys d cs)\<lparr>pim_trans_queue := \<lparr>addr = a\<rparr> # q\<rparr>)
        = (if bit a 1 then Inl OutOfBounds
           else Inr ((init_sys d cs)\<lparr>pim_trans_queue := \<lparr>addr = a\<rparr> # q\<rparr>))) \<and>
   (is_load a \<longrightarrow>
      pim_decode ((init_sys d cs)\<lparr>pim_trans_queue := \<lparr>addr = a\<rparr> # q\<rparr>) = Inl OutOfBounds) \<and>
   (vec_sized s n \<and> pim_trans_queue s = t # rest \<and> is_load (addr t) \<longrightarrow>
      (pim_decode s = Inl OutOfBounds \<longleftrightarrow> n \<le> load_cut_no (addr t))) \<and>
   (vec_sized s (nat (vcuts s * hcuts s)) \<and> pim_trans_queue s = t # rest \<and> \<not> is_load (addr t) \<longrightarrow>
      pim_decode s \<noteq> Inl OutOfBounds)"
proof (intro conjI impI)
  assume "is_compute a"
  then show "pim_decode ((init_sys d cs)\<lparr>pim_trans_queue := \<lparr>addr = a\<rparr> # q\<rparr>)
        = (if bit a 1 then Inl OutOfBounds
           else Inr ((init_sys d cs)\<lparr>pim_trans_queue := \<lparr>addr = a\<rparr> # q\<rparr>))"
    by (simp add: compute_before_configure compute_before_configure_unselected)
next
  show "vcuts (init_sys d cs) * hcuts (init_sys d cs) = 1"
    by (simp add: init_sys_def)
next
  assume l: "is_load a"
  let ?s = "(init_sys d cs)\<lparr>pim_trans_queue := \<lparr>addr = a\<rparr> # q\<rparr>"
  have "load ?s a = Inl OutOfBounds"
    using load_out_of_bounds [OF init_sys_sized [where d = d and cs = cs and q = "\<lparr>addr = a\<rparr> # q"] l] by simp
  then show "pim_decode ?s = Inl OutOfBounds"
    using l pim_decode_load [of ?s "\<lparr>addr = a\<rparr>" q] by simp
next
  assume h: "vec_sized s n \<and> pim_trans_queue s = t # rest \<and> is_load (addr t)"
  then show "pim_decode s = Inl OutOfBounds \<longleftrightarrow> n \<le> load_cut_no (addr t)"
    using load_out_of_bounds [of s n "addr t"] pim_decode_load [of s t rest] by simp
next
  assume h: "vec_sized s (nat (vcuts s * hcuts s)) \<and> pim_trans_queue s = t # rest \<and> \<not> is_load (addr t)"
  then have q: "pim_trans_queue s = t # rest" and v: "vec_sized s (nat (vcuts s * hcuts s))"
    and nl: "\<not> is_load (addr t)" by simp_all
  consider "is_compute (addr t)" | "is_configure (addr t)"
    using word_kinds nl by blast
  then show "pim_decode s \<noteq> Inl OutOfBounds"
  proof cases
    case 1
    then show ?thesis
      using compute_enable_in_bounds [OF v] by (simp add: pim_decode_compute [OF q 1])
  next
    case 2
    then show ?thesis
      using configure_in_bounds by (simp add: pim_decode_configure [OF q 2])
  qed
qed

text \<open>Before any Configure: a Compute-Enable of cut 0 and a Load. With two cuts: Loads
  for cut 2 and for cut 1, and a Compute-Enable.\<close>

theorem decoder_bounds_witness:
  "pim_decode ((init_sys 8 [ctrl0])\<lparr>pim_trans_queue := [\<lparr>addr = 3\<rparr>]\<rparr>) = Inl OutOfBounds \<and>
   pim_decode ((init_sys 8 [ctrl0])\<lparr>pim_trans_queue := [\<lparr>addr = 128\<rparr>]\<rparr>) = Inl OutOfBounds \<and>
   pim_decode (sys_two_cuts\<lparr>pim_trans_queue := [\<lparr>addr = 132\<rparr>]\<rparr>) = Inl OutOfBounds \<and>
   pim_decode (sys_two_cuts\<lparr>pim_trans_queue := [\<lparr>addr = 130\<rparr>]\<rparr>) \<noteq> Inl OutOfBounds \<and>
   pim_decode (sys_two_cuts\<lparr>pim_trans_queue := [\<lparr>addr = 3\<rparr>]\<rparr>) \<noteq> Inl OutOfBounds"
proof -
  have c: "is_compute 3" "bit (3 :: 64 word) 1" "\<not> is_load 3"
    by (simp_all add: is_compute_def is_load_def)
  have l: "is_load 132" "load_cut_no 132 = 2" "is_load 130" "load_cut_no 130 = 1" "is_load 128"
    by (simp_all add: is_load_def is_configure_def is_compute_def load_cut_no_def bw_cutNo_def
        mask_eq_exp_minus_1)
  have v: "vec_sized (sys_two_cuts\<lparr>pim_trans_queue := x\<rparr>) 2" for x
    using sys_two_cuts_facts(3) by (simp add: vec_sized_def)
  show ?thesis
    using decoder_bounds [of 3 8 "[ctrl0]" "[]" "sys_two_cuts\<lparr>pim_trans_queue := [\<lparr>addr = 132\<rparr>]\<rparr>"
        2 "\<lparr>addr = 132\<rparr>" "[]"]
      decoder_bounds [of 128 8 "[ctrl0]" "[]" "sys_two_cuts\<lparr>pim_trans_queue := [\<lparr>addr = 130\<rparr>]\<rparr>"
        2 "\<lparr>addr = 130\<rparr>" "[]"]
      decoder_bounds [of 128 8 "[ctrl0]" "[]" "sys_two_cuts\<lparr>pim_trans_queue := [\<lparr>addr = 3\<rparr>]\<rparr>"
        2 "\<lparr>addr = 3\<rparr>" "[]"]
      c l v
    by (simp add: sys_two_cuts_facts)
qed

text \<open>
  C10 as stated fails: before any Configure, the Compute-Enable words \<open>1\<close> (empty mask)
  and \<open>5\<close> (cut 1 alone) read no vector; the decoder returns with the state as it was.
\<close>

theorem compute_enable_empty_mask_counterexample:
  "is_compute 1 \<and>
   pim_decode ((init_sys 8 [ctrl0])\<lparr>pim_trans_queue := words [1]\<rparr>)
     = Inr ((init_sys 8 [ctrl0])\<lparr>pim_trans_queue := words [1]\<rparr>) \<and>
   is_compute 5 \<and>
   pim_decode ((init_sys 8 [ctrl0])\<lparr>pim_trans_queue := words [5]\<rparr>)
     = Inr ((init_sys 8 [ctrl0])\<lparr>pim_trans_queue := words [5]\<rparr>)"
  by code_simp

text \<open>
  C1. The claim is what the code is after (the second loop sets \<open>in_pim\<close> for the cuts of
  the mask only), but the first loop clears \<open>configured\<close> for every cut that the mask does
  not select (\<open>compute_enable_unselected\<close>). Here two cuts are configured and loaded, all
  six dimensions nonzero, and a Compute-Enable selects cut 0 alone: after its tick the
  word is still at the head of the queue and no cut is in PIM mode, where the claim has
  \<open>in_pim[0]\<close> set and the word erased.
\<close>

theorem compute_enable_partial_mask_stuck:
  "(case run (replicate 8 env0)
           ((init_sys 8 [ctrl0])\<lparr>pim_trans_queue :=
              words [2097376, 128, 160, 192, 130, 162, 194, 3]\<rparr>) of
      Inr s \<Rightarrow> vcuts s * hcuts s = 2 \<and> M s = [1, 1] \<and> N s = [1, 1] \<and> K s = [1, 1] \<and>
               in_pim s = [False, False] \<and> pim_trans_queue s = words [3]
    | Inl err \<Rightarrow> False)"
  by code_simp

text \<open>
  C9. A Load is processed; later an identical Load is at the head of the queue, in a state
  whose base rows and dimensions are those that the first Load left. The second Load is
  processed too and leaves the base rows and the dimensions of every cut as the first
  one left them.
\<close>

theorem load_idempotent:
  assumes "is_load a" and "pim_trans_queue s = \<lparr>addr = a\<rparr> # q"
      and "pim_decode s = Inr s1"
      and "cut_dims s1' = cut_dims s1" and "pim_trans_queue s1' = \<lparr>addr = a\<rparr> # q'"
  shows "\<exists>s2. pim_decode s1' = Inr s2 \<and> cut_dims s2 = cut_dims s1"
proof -
  have 1: "load s a = Inr s1"
    using assms(1,2,3) pim_decode_load [of s "\<lparr>addr = a\<rparr>" q] by simp
  have 2: "pim_decode s1' = load s1' a"
    using assms(1,5) pim_decode_load [of s1' "\<lparr>addr = a\<rparr>" q'] by simp
  show ?thesis
    unfolding 2 using 1 assms(4) by (rule load_idem)
qed

text \<open>Two identical Loads of \<open>M = 1\<close> for cut 0 of two cuts.\<close>

theorem load_idempotent_witness:
  "\<exists>s1 s2. pim_decode (sys_two_cuts\<lparr>pim_trans_queue := words [128, 128]\<rparr>) = Inr s1 \<and>
     pim_decode s1 = Inr s2 \<and> cut_dims s2 = cut_dims s1 \<and> M s1 = [1, 0]"
proof -
  let ?s = "sys_two_cuts\<lparr>pim_trans_queue := words [128, 128]\<rparr>"
  have "(case pim_decode ?s of
           Inr s1 \<Rightarrow> pim_trans_queue s1 = [\<lparr>addr = 128\<rparr>] \<and> M s1 = [1, 0]
         | Inl err \<Rightarrow> False)"
    by code_simp
  then obtain s1 where d: "pim_decode ?s = Inr s1"
    and q1: "pim_trans_queue s1 = \<lparr>addr = 128\<rparr> # []" and m: "M s1 = [1, 0]"
    by (cases "pim_decode ?s") auto
  have l: "is_load 128"
    by (simp add: is_load_def is_configure_def is_compute_def)
  have q: "pim_trans_queue ?s = \<lparr>addr = 128\<rparr> # [\<lparr>addr = 128\<rparr>]"
    by (simp add: words_def)
  show ?thesis
    using load_idempotent [OF l q d refl q1] d m by blast
qed

text \<open>
  C6, as amended. If at the start of a tick some controller reports \<open>IsInRef\<close> or
  \<open>pim_refresh_coming2\<close>, the loop over the cuts does nothing: the tick appends no command
  to any lane, and the state after it is the state that the decoder leaves, with the
  clock advanced. When some controller also reports \<open>pim_refresh_coming\<close> and a
  configuration exists, the decoder starts from the state of the start of the tick with
  the three placement flags of each of the \<open>vcuts * hcuts\<close> cuts cleared by the refresh
  look-ahead of lines 198 to 209; otherwise it starts from the very state of the start of
  the tick.
\<close>

theorem in_refresh_suppresses_cuts:
  assumes "list_ex (\<lambda>c. IsInRef c \<or> pim_refresh_coming2 c) (ctrls s)"
      and "ClockTick e s = Inr s'"
  shows "\<exists>s2. pim_decode
                 (if list_ex pim_refresh_coming (ctrls s) \<and> vcuts s \<noteq> - 1 \<and> hcuts s \<noteq> - 1
                  then placement_cleared s else s) = Inr s2 \<and>
              s' = s2\<lparr>clk := clk s2 + 1\<rparr> \<and>
              map lanes (ctrls s') = map lanes (ctrls s)"
proof -
  from assms(2) obtain ws s2 s3 where r: "refresh_loop (ctrls s) (False, s) = Inr ws"
    and d: "pim_decode (snd ws) = Inr s2"
    and l: "cut_loop e (fst ws) (list_ex (\<lambda>c. IsInRef c \<or> pim_refresh_coming2 c) (ctrls s2))
              (if vcuts s2 \<noteq> - 1 \<and> hcuts s2 \<noteq> - 1 then vcuts s2 * hcuts s2 else 0)
              [0..<nat (if vcuts s2 \<noteq> - 1 \<and> hcuts s2 \<noteq> - 1 then vcuts s2 * hcuts s2 else 0)]
              s2 = Inr s3"
    and s': "s' = s3\<lparr>clk := clk s3 + 1\<rparr>"
    unfolding ClockTick_def Let_def by (auto simp add: ebind_eq_Inr)
  have ex: "snd ws = (if list_ex pim_refresh_coming (ctrls s) \<and> vcuts s \<noteq> - 1 \<and> hcuts s \<noteq> - 1
               then placement_cleared s else s)"
    using r by (rule refresh_loop_exact)
  then have c1: "ctrls (snd ws) = ctrls s" by simp
  have c2: "map lanes (ctrls s2) = map lanes (ctrls s)"
    "map refresh_state (ctrls s2) = map refresh_state (ctrls s)"
    using pim_decode_ctrls [OF d] c1 by simp_all
  have "list_ex (\<lambda>c. IsInRef c \<or> pim_refresh_coming2 c) (ctrls s2)"
    using assms(1) list_ex_refresh_state [OF c2(2)] by simp
  with l have "s3 = s2" by (auto dest: cut_loop_in_ref)
  with s' c2 have 1: "s' = s2\<lparr>clk := clk s2 + 1\<rparr>" "map lanes (ctrls s') = map lanes (ctrls s)"
    by simp_all
  show ?thesis using d 1 unfolding ex by blast
qed

text \<open>
  A cut that is enabled and in state 0, with a controller that is ready: in refresh, the
  tick clears the placement flags and advances the clock, and nothing else; out of
  refresh, the same tick appends 16 commands to the weight lane and moves the cut to
  state 1.
\<close>

theorem in_refresh_suppresses_cuts_witness:
  "in_pim (refresh_begins sys_enabled) = [True] \<and>
   (\<exists>s'. ClockTick env0 (refresh_begins sys_enabled) = Inr s' \<and>
      s' = (placement_cleared (refresh_begins sys_enabled))\<lparr>clk := clk sys_enabled + 1\<rparr> \<and>
      map lanes (ctrls s') = map lanes (ctrls (refresh_begins sys_enabled))) \<and>
   (case ClockTick env0 sys_enabled of
      Inr s'' \<Rightarrow> map (length \<circ> rd_w_cmds) (ctrls sys_enabled) = [16] \<and>
                 map (length \<circ> rd_w_cmds) (ctrls s'') = [32] \<and> iw_status s'' = [1]
    | Inl err \<Rightarrow> False)"
proof -
  let ?s = "refresh_begins sys_enabled"
  have "(case ClockTick env0 ?s of Inr s' \<Rightarrow> True | Inl err \<Rightarrow> False)"
    by code_simp
  then obtain s' where t: "ClockTick env0 ?s = Inr s'"
    by (cases "ClockTick env0 ?s") auto
  have r: "list_ex (\<lambda>c. IsInRef c \<or> pim_refresh_coming2 c) (ctrls ?s)"
    by code_simp
  have w: "list_ex pim_refresh_coming (ctrls ?s) \<and> vcuts ?s \<noteq> - 1 \<and> hcuts ?s \<noteq> - 1"
    by code_simp
  have q: "pim_trans_queue (placement_cleared ?s) = []"
    by (simp add: placement_cleared_def refresh_begins_def sys_enabled_facts)
  have c: "clk (placement_cleared ?s) = clk sys_enabled"
    by (simp add: placement_cleared_def refresh_begins_def)
  have 1: "in_pim ?s = [True]"
    by (simp add: refresh_begins_def sys_enabled_facts)
  have 2: "(case ClockTick env0 sys_enabled of
      Inr s'' \<Rightarrow> map (length \<circ> rd_w_cmds) (ctrls sys_enabled) = [16] \<and>
                 map (length \<circ> rd_w_cmds) (ctrls s'') = [32] \<and> iw_status s'' = [1]
    | Inl err \<Rightarrow> False)"
    by code_simp
  from in_refresh_suppresses_cuts [OF r t] w obtain s2 where
    d: "pim_decode (placement_cleared ?s) = Inr s2" and s': "s' = s2\<lparr>clk := clk s2 + 1\<rparr>"
    and l: "map lanes (ctrls s') = map lanes (ctrls ?s)"
    by auto
  have "s2 = placement_cleared ?s" using d pim_decode_empty [OF q] by simp
  with s' c have "s' = (placement_cleared ?s)\<lparr>clk := clk sys_enabled + 1\<rparr>" by simp
  with t l 1 2 show ?thesis by blast
qed

text \<open>
  C6 as stated fails. A cut is enabled and its weight rows are activated
  (\<open>w_act_placed[0]\<close> is set); then the controller goes into refresh with the look-ahead
  still set. In the next tick the queue is empty, so the decoder changes nothing, and yet
  \<open>w_act_placed[0]\<close> is cleared.
\<close>

theorem in_refresh_clears_placed_counterexample:
  "(case run [env0, env0, env0, env0, env_closed]
           ((init_sys 8 [ctrl0])\<lparr>pim_trans_queue := words [2097248, 128, 160, 192, 3]\<rparr>) of
      Inr s5 \<Rightarrow>
        (case ClockTick env0 (refresh_begins s5) of
           Inr s6 \<Rightarrow> pim_trans_queue s5 = [] \<and> in_pim s5 = [True] \<and> w_act_placed s5 = [True] \<and>
                     list_ex (\<lambda>c. IsInRef c \<or> pim_refresh_coming2 c) (ctrls (refresh_begins s5)) \<and>
                     w_act_placed s6 = [False]
         | Inl err \<Rightarrow> False)
    | Inl err \<Rightarrow> False)"
  by code_simp

text \<open>
  C3, as amended. In a tick at whose start some controller reports \<open>pim_refresh_coming\<close>
  and a configuration exists (\<open>vcuts\<close> and \<open>hcuts\<close> are not \<open>-1\<close>), the look-ahead of lines
  198 to 209 clears the three placement flags of each of the \<open>vcuts * hcuts\<close> cuts before
  the decoder runs, and the cut loop runs with \<open>wait_refresh\<close> set. At the end of the tick
  \<open>in_act_placed\<close>, \<open>w_act_placed\<close> and \<open>out_act_placed\<close> are clear for every cut of the
  configuration then in force. The tick appends no \<open>PIM_ACTIVATE\<close> to the lanes
  \<open>rd_w_cmds_\<close> and \<open>wr_cmds_\<close> of any controller, and every batch that the input feeder
  hands over with \<open>wait_refresh\<close> set is empty or begins with a command other than
  \<open>PIM_ACTIVATE\<close>. Commands of the other kinds are still emitted.
\<close>

theorem refresh_coming_gates_activates:
  assumes "list_ex pim_refresh_coming (ctrls s)" and "vcuts s \<noteq> - 1" and "hcuts s \<noteq> - 1"
      and "ClockTick e s = Inr s'"
  shows "(\<exists>s2 s3 ref cuts.
            pim_decode (placement_cleared s) = Inr s2 \<and>
            cut_loop e True ref cuts [0..<nat cuts] s2 = Inr s3 \<and>
            s' = s3\<lparr>clk := clk s3 + 1\<rparr>) \<and>
         placed_clear s' (nat (vcuts s' * hcuts s')) \<and>
         no_activate_added (ctrls s) (ctrls s') \<and>
         (\<forall>c g i x r. feed_input e True c g i x = Inr r \<longrightarrow>
            snd r = [] \<or> cmd_type (hd (snd r)) \<noteq> PIM_ACTIVATE)"
proof -
  let ?W = "list_ex pim_refresh_coming (ctrls s) \<and> vcuts s \<noteq> - 1 \<and> hcuts s \<noteq> - 1"
  have W: ?W using assms(1,2,3) by simp
  from assms(4) obtain ws s2 s3 where r: "refresh_loop (ctrls s) (False, s) = Inr ws"
    and d: "pim_decode (snd ws) = Inr s2"
    and l: "cut_loop e (fst ws) (list_ex (\<lambda>c. IsInRef c \<or> pim_refresh_coming2 c) (ctrls s2))
              (if vcuts s2 \<noteq> - 1 \<and> hcuts s2 \<noteq> - 1 then vcuts s2 * hcuts s2 else 0)
              [0..<nat (if vcuts s2 \<noteq> - 1 \<and> hcuts s2 \<noteq> - 1 then vcuts s2 * hcuts s2 else 0)]
              s2 = Inr s3"
    and s': "s' = s3\<lparr>clk := clk s3 + 1\<rparr>"
    unfolding ClockTick_def Let_def by (auto simp add: ebind_eq_Inr)
  have ex: "snd ws = placement_cleared s"
    using refresh_loop_exact [OF r] W by simp
  have ch0: "(fst ws \<longleftrightarrow> False \<or> ?W) \<and>
     ((False \<longrightarrow> placed_clear s (nat (vcuts s * hcuts s))) \<longrightarrow>
      fst ws \<longrightarrow> placed_clear (snd ws) (nat (vcuts s * hcuts s)))"
    using refresh_loop_char [OF r] by (rule conjunct2)
  have ch: "fst ws" "placed_clear (snd ws) (nat (vcuts s * hcuts s))"
    using ch0 W by blast+
  have d': "pim_decode (placement_cleared s) = Inr s2" using d ex by simp
  have l': "cut_loop e True (list_ex (\<lambda>c. IsInRef c \<or> pim_refresh_coming2 c) (ctrls s2))
              (if vcuts s2 \<noteq> - 1 \<and> hcuts s2 \<noteq> - 1 then vcuts s2 * hcuts s2 else 0)
              [0..<nat (if vcuts s2 \<noteq> - 1 \<and> hcuts s2 \<noteq> - 1 then vcuts s2 * hcuts s2 else 0)]
              s2 = Inr s3"
    using l by (simp only: eqTrueI [OF ch(1)])
  have 1: "\<exists>s2 s3 ref cuts.
            pim_decode (placement_cleared s) = Inr s2 \<and>
            cut_loop e True ref cuts [0..<nat cuts] s2 = Inr s3 \<and>
            s' = s3\<lparr>clk := clk s3 + 1\<rparr>"
    by (intro exI conjI) (rule d', rule l', rule s')
  have pc: "placed_clear (snd ws) (nat (vcuts (snd ws) * hcuts (snd ws)))"
    using ch(2) ex by simp
  have p2: "placed_clear s2 (nat (vcuts s2 * hcuts s2))"
    using d pc by (rule pim_decode_placed_clear)
  have f: "vcuts s3 = vcuts s2 \<and> hcuts s3 = hcuts s2 \<and> M_tile_size s3 = M_tile_size s2"
    using cut_loop_frame [OF l'] by (rule frame_vcuts)
  have "placed_clear s3 (nat (vcuts s2 * hcuts s2))"
    using p2 cut_loop_placed [OF l'] by (rule placed_clear_frame)
  then have 2: "placed_clear s' (nat (vcuts s' * hcuts s'))"
    unfolding s' using f by (simp add: placed_clear_def)
  have c1: "ctrls (snd ws) = ctrls s" using ex by simp
  have "map lanes (ctrls s2) = map lanes (ctrls s)"
    using pim_decode_ctrls [OF d] c1 by simp
  then have n1: "no_activate_added (ctrls s) (ctrls s2)" by (rule no_activate_added_same_lanes)
  have n2: "no_activate_added (ctrls s2) (ctrls s3)" using l' by (rule cut_loop_no_activate)
  have "no_activate_added (ctrls s) (ctrls s3)" using n1 n2 by (rule no_activate_added_trans)
  then have 3: "no_activate_added (ctrls s) (ctrls s')"
    by (simp add: s')
  have 4: "\<forall>c g i x r. feed_input e True c g i x = Inr r \<longrightarrow>
            snd r = [] \<or> cmd_type (hd (snd r)) \<noteq> PIM_ACTIVATE"
    by (intro allI impI) (rule feed_input_head)
  show ?thesis by (intro conjI) (rule 1, rule 2, rule 3, rule 4)
qed

text \<open>
  One cut, configured, loaded and enabled in this very tick, with a refresh to come and a
  controller whose banks are closed: the tick succeeds, the cut is enabled, the placement
  flags are clear, and the activation that the controller asks for is not placed: the
  weight lane stays empty.
\<close>

theorem refresh_coming_gates_activates_witness:
  "\<exists>s'. ClockTick env_closed sys_refresh_coming = Inr s' \<and>
     in_pim s' = [True] \<and>
     placed_clear s' 1 \<and> no_activate_added (ctrls sys_refresh_coming) (ctrls s') \<and>
     map rd_w_cmds (ctrls s') = [[]]"
proof -
  have "(case run [env0, env0, env0, env0]
           ((init_sys 8 [ctrl0\<lparr>pim_refresh_coming := True\<rparr>])
              \<lparr>pim_trans_queue := words [2097248, 128, 160, 192, 3]\<rparr>) of
      Inr s \<Rightarrow>
        list_ex pim_refresh_coming (ctrls s) \<and> vcuts s = 1 \<and> hcuts s = 1 \<and>
        (case ClockTick env_closed s of
           Inr s' \<Rightarrow> in_pim s' = [True] \<and> vcuts s' = 1 \<and> hcuts s' = 1 \<and>
                     map rd_w_cmds (ctrls s') = [[]]
         | Inl err \<Rightarrow> False)
    | Inl err \<Rightarrow> False)"
    by code_simp
  then obtain s0 s' where r: "run [env0, env0, env0, env0]
           ((init_sys 8 [ctrl0\<lparr>pim_refresh_coming := True\<rparr>])
              \<lparr>pim_trans_queue := words [2097248, 128, 160, 192, 3]\<rparr>) = Inr s0"
    and h1: "list_ex pim_refresh_coming (ctrls s0)" and h2: "vcuts s0 = 1" and h3: "hcuts s0 = 1"
    and t0: "ClockTick env_closed s0 = Inr s'" and i: "in_pim s' = [True]"
    and v: "vcuts s' = 1" "hcuts s' = 1" and w: "map rd_w_cmds (ctrls s') = [[]]"
    by (auto split: sum.splits)
  have s0: "sys_refresh_coming = s0"
    unfolding sys_refresh_coming_def r by simp
  have h: "list_ex pim_refresh_coming (ctrls sys_refresh_coming)"
    "vcuts sys_refresh_coming \<noteq> - 1" "hcuts sys_refresh_coming \<noteq> - 1"
    using h1 h2 h3 by (simp_all add: s0)
  have t: "ClockTick env_closed sys_refresh_coming = Inr s'"
    using t0 by (simp add: s0)
  note th = refresh_coming_gates_activates [OF h t]
  have "placed_clear s' (nat (vcuts s' * hcuts s'))"
    using th by (rule conjunct2 [THEN conjunct1])
  then have p: "placed_clear s' 1" using v by simp
  have n: "no_activate_added (ctrls sys_refresh_coming) (ctrls s')"
    using th by (rule conjunct2 [THEN conjunct2, THEN conjunct1])
  show ?thesis
    by (intro exI conjI) (rule t, rule i, rule p, rule n, rule w)
qed

text \<open>
  C3 as stated fails. The same cut with a controller that is ready: some controller
  reports \<open>pim_refresh_coming\<close> and a configuration exists, and yet the tick appends 16
  commands \<open>PIM_READ_PRECHARGE\<close> to the weight lane, which was empty.
\<close>

theorem refresh_coming_still_reads_counterexample:
  "(case run [env0, env0, env0, env0]
           ((init_sys 8 [ctrl0\<lparr>pim_refresh_coming := True\<rparr>])
              \<lparr>pim_trans_queue := words [2097248, 128, 160, 192, 3]\<rparr>) of
      Inr s \<Rightarrow>
        list_ex pim_refresh_coming (ctrls s) \<and> vcuts s = 1 \<and> hcuts s = 1 \<and>
        map (length \<circ> rd_w_cmds) (ctrls s) = [0] \<and>
        (case ClockTick env0 s of
           Inr s' \<Rightarrow> map (map cmd_type \<circ> rd_w_cmds) (ctrls s') = [replicate 16 PIM_READ_PRECHARGE]
         | Inl err \<Rightarrow> False)
    | Inl err \<Rightarrow> False)"
  by code_simp

end
